theory Spec2Isabelle
  imports Complex_Main "HOL-Library.AList"
begin

unbundle bit_operations_syntax

section \<open>Common data\<close>

text \<open>
  Exceptions are values. Every constructor is a subclass of Python's \<open>Exception\<close>, so a
  clause \<open>except Exception\<close> catches all of them; clauses naming one class catch only
  that constructor. \<open>OtherError\<close> stands for any exception class not named in the sources.
\<close>

datatype py_exn =
    FileNotFoundError
  | ImportError
  | QueueEmpty
  | WaitTimeoutError
  | UnknownValueError
  | RequestError string
  | OtherError string

text \<open>What a loop iteration does to the loop it belongs to.\<close>

datatype 'a outcome =
    Continue 'a  \<comment> \<open>the body ran to its end; the loop goes on\<close>
  | Break 'a  \<comment> \<open>\<open>break\<close>\<close>
  | Blocks  \<comment> \<open>the thread waits in a blocking queue call\<close>
  | Crash  \<comment> \<open>an exception leaves the loop\<close>

type_synonym frame = nat  \<comment> \<open>a camera image, by identity\<close>
type_synonym audio = nat  \<comment> \<open>a captured phrase, by identity\<close>
type_synonym box = "int \<times> int \<times> int \<times> int"  \<comment> \<open>(top, right, bottom, left)\<close>
type_synonym face = "box \<times> string"

section \<open>Python's \<open>queue.Queue\<close>\<close>

text \<open>
  The standard library's FIFO queue: \<open>maxsize \<le> 0\<close> means unbounded. \<open>put\<close> and
  \<open>get\<close> are the blocking calls (default arguments): \<open>None\<close> is a caller that waits.
\<close>

record 'a py_queue =
  maxsize :: int
  items :: "'a list"

definition Queue :: "int \<Rightarrow> 'a py_queue" where
  "Queue m = \<lparr>maxsize = m, items = []\<rparr>"

definition qsize :: "'a py_queue \<Rightarrow> int" where
  "qsize q = int (length (items q))"

definition q_empty :: "'a py_queue \<Rightarrow> bool" where
  "q_empty q = (items q = [])"

definition q_full :: "'a py_queue \<Rightarrow> bool" where
  "q_full q = (0 < maxsize q \<and> maxsize q \<le> qsize q)"

definition q_put :: "'a py_queue \<Rightarrow> 'a \<Rightarrow> 'a py_queue option" where
  "q_put q x = (if q_full q then None else Some (q\<lparr>items := items q @ [x]\<rparr>))"

definition q_get :: "'a py_queue \<Rightarrow> ('a \<times> 'a py_queue) option" where
  "q_get q = (case items q of [] \<Rightarrow> None | x # xs \<Rightarrow> Some (x, q\<lparr>items := xs\<rparr>))"

definition q_get_nowait :: "'a py_queue \<Rightarrow> py_exn + ('a \<times> 'a py_queue)" where
  "q_get_nowait q = (case items q of [] \<Rightarrow> Inl QueueEmpty | x # xs \<Rightarrow> Inr (x, q\<lparr>items := xs\<rparr>))"

section \<open>Strings\<close>

text \<open>
  \<open>str.lower\<close> on ASCII letters (a \<open>char\<close> is a byte; the case mapping of code points
  beyond ASCII is not modelled), and the substring test \<open>sub in s\<close>.
\<close>

definition lower_char :: "char \<Rightarrow> char" where
  "lower_char c =
     (case map_of (zip ''ABCDEFGHIJKLMNOPQRSTUVWXYZ'' ''abcdefghijklmnopqrstuvwxyz'') c of
        None \<Rightarrow> c | Some d \<Rightarrow> d)"

definition lower :: "string \<Rightarrow> string" where
  "lower s = map lower_char s"

fun startswith :: "string \<Rightarrow> string \<Rightarrow> bool" where
  "startswith s [] = True"
| "startswith [] (p # ps) = False"
| "startswith (c # cs) (p # ps) = (c = p \<and> startswith cs ps)"

fun contains :: "string \<Rightarrow> string \<Rightarrow> bool" where
  "contains sub [] = (sub = [])"
| "contains sub (c # cs) = (startswith (c # cs) sub \<or> contains sub cs)"

definition any_in :: "string list \<Rightarrow> string \<Rightarrow> bool" where
  \<comment> \<open>\<open>any(word in s for word in words)\<close>\<close>
  "any_in words s = list_ex (\<lambda>word. contains word s) words"

fun string_of_nat :: "nat \<Rightarrow> string" where
  "string_of_nat n =
     (if n < 10 then [char_of (48 + n)]
      else string_of_nat (n div 10) @ [char_of (48 + n mod 10)])"

section \<open>What the main thread does to the outside\<close>

datatype message =
    CantReceiveFrame  \<comment> \<open>main.py 109\<close>
  | AlertBanner  \<comment> \<open>main.py 129, 131\<close>
  | AlertUnknownPerson  \<comment> \<open>main.py 130\<close>
  | StartingConversation  \<comment> \<open>main.py 137\<close>
  | VoiceCommand string  \<comment> \<open>main.py 172\<close>
  | IntruderSaid string  \<comment> \<open>main.py 176\<close>
  | SecurityAI string  \<comment> \<open>main.py 178\<close>
  | GuardActivated  \<comment> \<open>main.py 189\<close>
  | GuardInfo  \<comment> \<open>main.py 190\<close>
  | GuardDeactivated  \<comment> \<open>main.py 198\<close>
  | QuitReceived  \<comment> \<open>main.py 202\<close>
  | ConversationTimeout  \<comment> \<open>main.py 207\<close>
  | Text string  \<comment> \<open>main.py 210: a string printed as it is\<close>
  | LLMStarted  \<comment> \<open>llm.py 201\<close>
  | LLMProcessing string  \<comment> \<open>llm.py 217\<close>
  | LLMGenerated string  \<comment> \<open>llm.py 219\<close>
  | LLMEnded nat  \<comment> \<open>llm.py 228\<close>
  | LLMError py_exn  \<comment> \<open>llm.py 172\<close>

datatype event =
    Print message
  | SubmitFrame frame  \<comment> \<open>\<open>frame_queue.put(frame)\<close>\<close>
  | Speak string  \<comment> \<open>\<open>text_to_speech_async(text)\<close>\<close>
  | ShowVideo  \<comment> \<open>the boxes drawn and \<open>cv2.imshow\<close>\<close>
  | DestroyWindow
  | Sleep real

section \<open>llm.py: \<open>IntruderConversationManager\<close>\<close>

datatype role = Assistant | Intruder

type_synonym msg = "role \<times> string"  \<comment> \<open>\<open>{'role': ..., 'content': ...}\<close>\<close>

record manager =
  conversation_active :: bool
  conversation_history :: "msg list"
  generator_loaded :: bool  \<comment> \<open>\<open>self.generator is not None\<close>\<close>

definition new_manager :: "bool \<Rightarrow> manager" where
  \<comment> \<open>\<open>__init__\<close>; the argument is whether \<open>_initialize_model\<close> got a pipeline\<close>
  "new_manager loaded =
     \<lparr>conversation_active = False, conversation_history = [], generator_loaded = loaded\<rparr>"

definition default_responses :: "string list" where
  "default_responses =
     [''I need you to identify yourself. Who are you?'',
      ''This area is under surveillance. Why are you here?'',
      ''Please state your purpose for being in this location.'',
      ''Security has been alerted. Please remain where you are.'',
      ''I'm waiting for your response. Why are you in this restricted area?'']"

definition get_fallback_response :: "manager \<Rightarrow> string \<Rightarrow> string" where
  "get_fallback_response m intruder_text =
     (let intruder_lower = lower intruder_text;
          turn_count = length (filter (\<lambda>m. fst m = Intruder) (conversation_history m))
      in if turn_count = 0 then
           ''Hello, I've detected your presence. Can you please identify yourself?''
         else if any_in [''hello'', ''hi'', ''hey''] intruder_lower then
           ''Hello. This is a restricted area. Who are you and why are you here?''
         else if any_in [''name is'', ''i am'', ''i'm'', ''my name''] intruder_lower then
           ''I see. Do you have authorization to be in this area? Can you provide a code or badge number?''
         else if any_in [''authorized'', ''permission'', ''allowed'', ''badge''] intruder_lower then
           ''Please wait here while I verify your credentials. Security has been notified.''
         else if any_in [''no'', ''none'', ''leave me'', ''mind your''] intruder_lower then
           ''I must inform you that this area is under surveillance. Please comply or leave immediately.''
         else if any_in [''what'', ''where'', ''who'', ''confused'', ''lost''] intruder_lower then
           ''You are in a restricted area. If you are lost, please leave the way you came and contact security.''
         else default_responses ! min (turn_count - 1) (length default_responses - 1))"

text \<open>
  \<open>_generate_response\<close>. The argument \<open>generate\<close> is lines 143 to 165: the prompt built
  from the history, the call of the external text-generation pipeline, and the first line
  of what follows the last marker in its output; \<open>Inl\<close> when any of that raises.
\<close>

definition generate_response ::
  "(msg list \<Rightarrow> py_exn + string) \<Rightarrow> manager \<Rightarrow> string \<Rightarrow> string \<times> manager \<times> event list" where
  "generate_response generate m intruder_text =
     (let m1 = m\<lparr>conversation_history := conversation_history m @ [(Intruder, intruder_text)]\<rparr>;
          (response, ev) =
            (if \<not> generator_loaded m1 then (get_fallback_response m1 intruder_text, [])
             else case generate (conversation_history m1) of
                    Inl e \<Rightarrow> (get_fallback_response m1 intruder_text, [Print (LLMError e)])
                  | Inr response \<Rightarrow>
                      if response = [] \<or> length response > 200
                      then (get_fallback_response m1 intruder_text, [])
                      else (response, []))
      in (response,
          m1\<lparr>conversation_history := conversation_history m1 @ [(Assistant, response)]\<rparr>,
          ev))"

definition opening_message :: string where
  "opening_message = ''Attention! I have detected an unknown person. Please identify yourself immediately.''"

definition start_conversation :: "manager \<Rightarrow> string \<times> manager \<times> event list" where
  "start_conversation m =
     (opening_message,
      m\<lparr>conversation_active := True, conversation_history := [(Assistant, opening_message)]\<rparr>,
      [Print LLMStarted])"

definition process_intruder_response ::
  "(msg list \<Rightarrow> py_exn + string) \<Rightarrow> manager \<Rightarrow> string \<Rightarrow> string \<times> manager \<times> event list" where
  "process_intruder_response generate m intruder_text =
     (if \<not> conversation_active m then start_conversation m
      else let (response, m', ev) = generate_response generate m intruder_text
           in (response, m',
               [Print (LLMProcessing intruder_text)] @ ev @ [Print (LLMGenerated response)]))"

definition end_conversation :: "manager \<Rightarrow> manager \<times> event list" where
  "end_conversation m =
     (m\<lparr>conversation_active := False\<rparr>,
      [Print (LLMEnded (length (conversation_history m) div 2))])"

definition is_conversation_active :: "manager \<Rightarrow> bool" where
  "is_conversation_active m = conversation_active m"

definition summary_line :: "nat \<times> msg \<Rightarrow> string" where
  "summary_line p =
     (case p of (i, r, content) \<Rightarrow>
        string_of_nat i @ ''. '' @ (if r = Assistant then ''Security AI'' else ''Intruder'')
          @ '': '' @ content @ [CHR 0x0A])"

definition get_conversation_summary :: "manager \<Rightarrow> string" where
  "get_conversation_summary m =
     (if conversation_history m = [] then ''No conversation history.''
      else ''Conversation Summary:'' @ [CHR 0x0A]
           @ concat (map summary_line
                (zip [1 ..< Suc (length (conversation_history m))] (conversation_history m))))"

section \<open>asr.py: the listener as the main loop sees it\<close>

definition get_text :: "string py_queue \<Rightarrow> py_exn + (string option \<times> string py_queue)" where
  \<comment> \<open>\<open>get_nowait\<close> inside \<open>try\<close>; \<open>except queue.Empty: return None\<close>, anything else propagates\<close>
  "get_text q =
     (case q_get_nowait q of
        Inr (text, q') \<Rightarrow> Inr (Some text, q')
      | Inl QueueEmpty \<Rightarrow> Inr (None, q)
      | Inl e \<Rightarrow> Inl e)"

definition has_text :: "string py_queue \<Rightarrow> bool" where
  "has_text q = (\<not> q_empty q)"

section \<open>main.py: \<open>run_live_recognition\<close>\<close>

record state =
  frame_queue :: "frame option py_queue"  \<comment> \<open>\<open>None\<close> is the sentinel of line 224\<close>
  result_queue :: "face list py_queue"
  text_queue :: "string py_queue"  \<comment> \<open>\<open>asr_listener.text_queue\<close>\<close>
  conversation_manager :: manager
  conversation_mode :: bool
  conversation_timeout :: real
  recognized_faces :: "face list"
  frame_count :: int
  guard_mode :: bool
  last_unknown_alert_time :: real

definition process_every_n_frames :: int where
  "process_every_n_frames = 3"

definition initial_state :: "bool \<Rightarrow> state" where
  \<comment> \<open>lines 72 to 96, and \<open>ASRListener.__init__\<close> (asr.py 34) for the text queue\<close>
  "initial_state loaded =
     \<lparr>frame_queue = Queue 1, result_queue = Queue 1, text_queue = Queue 0,
      conversation_manager = new_manager loaded, conversation_mode = False,
      conversation_timeout = 0, recognized_faces = [], frame_count = 0,
      guard_mode = False, last_unknown_alert_time = 0\<rparr>"

text \<open>What one iteration of the \<open>while True\<close> loop reads from outside.\<close>

record inputs =
  read_frame :: "frame option"  \<comment> \<open>line 107: \<open>None\<close> when \<open>ret\<close> is false\<close>
  time_guard :: real  \<comment> \<open>\<open>time.time()\<close> of line 125\<close>
  key :: int  \<comment> \<open>\<open>cv2.waitKey(1)\<close> of line 158\<close>
  generate :: "msg list \<Rightarrow> py_exn + string"  \<comment> \<open>the text-generation pipeline\<close>
  time_reset :: real  \<comment> \<open>\<open>time.time()\<close> of line 181\<close>
  time_check :: real  \<comment> \<open>\<open>time.time()\<close> of line 206\<close>

definition submit_frame :: "frame \<Rightarrow> state \<Rightarrow> (state \<times> event list) option" where
  \<comment> \<open>lines 115 to 117, after the counter's increment\<close>
  "submit_frame fr s =
     (if frame_count s mod process_every_n_frames = 0 then
        if \<not> q_full (frame_queue s) then
          case q_put (frame_queue s) (Some fr) of
            None \<Rightarrow> None
          | Some q \<Rightarrow> Some (s\<lparr>frame_queue := q\<rparr>, [SubmitFrame fr])
        else Some (s, [])
      else Some (s, []))"

definition poll_results :: "state \<Rightarrow> state option" where
  \<comment> \<open>lines 120 and 121\<close>
  "poll_results s =
     (if \<not> q_empty (result_queue s) then
        case q_get (result_queue s) of
          None \<Rightarrow> None
        | Some (faces, q) \<Rightarrow> Some (s\<lparr>recognized_faces := faces, result_queue := q\<rparr>)
      else Some s)"

definition guard_face :: "real \<Rightarrow> face \<Rightarrow> state \<times> event list \<Rightarrow> state \<times> event list" where
  \<comment> \<open>the body of the \<open>for\<close> loop, lines 127 to 141\<close>
  "guard_face current_time f acc =
     (case acc of (s, ev) \<Rightarrow>
        if snd f = ''Unknown'' \<and> current_time - last_unknown_alert_time s > 10 then
          let ev1 = ev @ [Print AlertBanner, Print AlertUnknownPerson, Print AlertBanner];
              (s2, ev2) =
                (if \<not> conversation_mode s then
                   let (opening_msg, m, evm) = start_conversation (conversation_manager s)
                   in (s\<lparr>conversation_mode := True,
                         conversation_timeout := current_time + 60,
                         conversation_manager := m\<rparr>,
                       ev1 @ [Print StartingConversation] @ evm @ [Speak opening_msg])
                 else (s, ev1))
          in (s2\<lparr>last_unknown_alert_time := current_time\<rparr>, ev2)
        else (s, ev))"

definition guard_phase :: "real \<Rightarrow> state \<Rightarrow> state \<times> event list" where
  \<comment> \<open>lines 124 to 141\<close>
  "guard_phase current_time s =
     (if guard_mode s then fold (guard_face current_time) (recognized_faces s) (s, [])
      else (s, []))"

definition display_phase :: "int \<Rightarrow> state \<Rightarrow> bool \<times> event list" where
  \<comment> \<open>lines 144 to 167; the flag is the \<open>break\<close> of line 159, and 113 is \<open>ord('q')\<close>\<close>
  "display_phase k s =
     (if guard_mode s then (k AND 255 = 113, [ShowVideo])
      else (False, [DestroyWindow, Sleep 0.1]))"

definition voice_command :: "string \<Rightarrow> state \<Rightarrow> state outcome \<times> event list" where
  \<comment> \<open>lines 184 to 203\<close>
  "voice_command spoken_text s =
     (let spoken_lower = lower spoken_text
      in if contains ''guard'' spoken_lower \<and> contains ''room'' spoken_lower then
           (Continue (s\<lparr>guard_mode := True\<rparr>), [Print GuardActivated, Print GuardInfo])
         else if contains ''stop'' spoken_lower \<and> contains ''guard'' spoken_lower then
           let s1 = s\<lparr>guard_mode := False, conversation_mode := False\<rparr>;
               (m, ev) =
                 (if is_conversation_active (conversation_manager s1)
                  then end_conversation (conversation_manager s1)
                  else (conversation_manager s1, []))
           in (Continue (s1\<lparr>conversation_manager := m\<rparr>), ev @ [Print GuardDeactivated])
         else if any_in [''quit'', ''exit'', ''close''] spoken_lower then
           (Break s, [Print QuitReceived])
         else (Continue s, []))"

definition asr_phase :: "inputs \<Rightarrow> state \<Rightarrow> state outcome \<times> event list" where
  \<comment> \<open>lines 170 to 203. \<open>get_text\<close> returning \<open>None\<close> would reach \<open>None.lower()\<close>\<close>
  "asr_phase inp s =
     (if has_text (text_queue s) then
        case get_text (text_queue s) of
          Inl e \<Rightarrow> (Crash, [])
        | Inr (None, q) \<Rightarrow> (Crash, [])
        | Inr (Some spoken_text, q) \<Rightarrow>
            let s1 = s\<lparr>text_queue := q\<rparr>;
                ev1 = [Print (VoiceCommand spoken_text)]
            in if conversation_mode s1 then
                 let (ai_response, m, evm) =
                       process_intruder_response (generate inp) (conversation_manager s1) spoken_text
                 in (Continue (s1\<lparr>conversation_manager := m,
                                  conversation_timeout := time_reset inp + 60\<rparr>),
                     ev1 @ [Print (IntruderSaid spoken_text)] @ evm
                       @ [Print (SecurityAI ai_response), Speak ai_response])
               else
                 let (out, evc) = voice_command spoken_text s1 in (out, ev1 @ evc)
      else (Continue s, []))"

definition final_warning :: string where
  "final_warning = ''You have not responded. Security has been notified. Leave immediately.''"

definition timeout_phase :: "real \<Rightarrow> state \<Rightarrow> state \<times> event list" where
  \<comment> \<open>lines 206 to 213\<close>
  "timeout_phase now s =
     (if conversation_mode s \<and> now > conversation_timeout s then
        let s1 = s\<lparr>conversation_mode := False\<rparr>
        in if is_conversation_active (conversation_manager s1) then
             let summary = get_conversation_summary (conversation_manager s1);
                 (m, evm) = end_conversation (conversation_manager s1)
             in (s1\<lparr>conversation_manager := m\<rparr>,
                 [Print ConversationTimeout, Print (Text summary)] @ evm @ [Speak final_warning])
           else (s1, [Print ConversationTimeout])
      else (s, []))"

definition before_timeout :: "inputs \<Rightarrow> state \<Rightarrow> state outcome \<times> event list" where
  \<comment> \<open>lines 106 to 203 of one iteration\<close>
  "before_timeout inp s =
     (case read_frame inp of
        None \<Rightarrow> (Break s, [Print CantReceiveFrame])
      | Some fr \<Rightarrow>
          (case submit_frame fr (s\<lparr>frame_count := frame_count s + 1\<rparr>) of
             None \<Rightarrow> (Blocks, [])
           | Some (s1, e1) \<Rightarrow>
               (case poll_results s1 of
                  None \<Rightarrow> (Blocks, e1)
                | Some s2 \<Rightarrow>
                    let (s3, e3) = guard_phase (time_guard inp) s2;
                        (quit, e4) = display_phase (key inp) s3
                    in if quit then (Break s3, e1 @ e3 @ e4)
                       else let (out, e5) = asr_phase inp s3
                            in (out, e1 @ e3 @ e4 @ e5))))"

definition loop_body :: "inputs \<Rightarrow> state \<Rightarrow> state outcome \<times> event list" where
  \<comment> \<open>one iteration, lines 106 to 213\<close>
  "loop_body inp s =
     (case before_timeout inp s of
        (Continue s5, e) \<Rightarrow>
          let (s6, e6) = timeout_phase (time_check inp) s5 in (Continue s6, e @ e6)
      | (out, e) \<Rightarrow> (out, e))"

text \<open>
  The states the loop can be in at the head of an iteration: the other threads change
  the contents of the three queues between and during iterations, and nothing else.
\<close>

inductive reachable :: "state \<Rightarrow> bool" where
  start: "reachable (initial_state loaded)"
| others: "reachable s \<Longrightarrow>
    reachable (s\<lparr>frame_queue := (frame_queue s)\<lparr>items := fs\<rparr>,
                  result_queue := (result_queue s)\<lparr>items := rs\<rparr>,
                  text_queue := (text_queue s)\<lparr>items := ts\<rparr>\<rparr>)"
| iteration: "reachable s \<Longrightarrow> loop_body inp s = (Continue s', ev) \<Longrightarrow> reachable s'"

section \<open>face_recognition_system.py\<close>

text \<open>
  \<open>known_faces\<close> is a dict, read in insertion order: an association list, written with
  \<open>AList.update\<close> (a new key goes to the end, an old one keeps its place). The external
  library is taken as it answers: an image is what \<open>load_image_file\<close> followed by
  \<open>face_encodings\<close> gives (\<open>Inl e\<close> when either raises \<open>e\<close>), and \<open>matches known e\<close> is
  the entry of \<open>compare_faces\<close> for one known encoding (within the tolerance, 0.6).
\<close>

type_synonym 'e known_faces = "(string \<times> 'e list) list"
type_synonym 'e image = "py_exn + 'e list"

datatype 'e entry =
    File  \<comment> \<open>\<open>os.path.isdir\<close> is false\<close>
  | Dir "py_exn + (string \<times> 'e image) list"  \<comment> \<open>what \<open>os.listdir(person_dir)\<close> gives\<close>

datatype fr_message =
    ErrorProcessingImage string string py_exn  \<comment> \<open>line 23: person, image, exception\<close>
  | NoFaceFound  \<comment> \<open>line 36\<close>
  | ErrorLoadingImage py_exn  \<comment> \<open>line 49\<close>

fun load_images :: "string \<Rightarrow> (string \<times> 'e image) list \<Rightarrow> 'e list \<times> fr_message list" where
  \<comment> \<open>the inner loop, lines 14 to 23: the encodings appended and the messages printed\<close>
  "load_images person [] = ([], [])"
| "load_images person ((image_name, img) # rest) =
     (let (encodings, ev) = load_images person rest
      in case img of
           Inl e \<Rightarrow> (encodings, ErrorProcessingImage person image_name e # ev)
         | Inr [] \<Rightarrow> (encodings, ev)
         | Inr (first # others) \<Rightarrow> (first # encodings, ev))"

fun load_persons ::
  "(string \<times> 'e entry) list \<Rightarrow> 'e known_faces \<Rightarrow> fr_message list
     \<Rightarrow> (py_exn + 'e known_faces) \<times> fr_message list" where
  \<comment> \<open>the outer loop, lines 10 to 25\<close>
  "load_persons [] known ev = (Inr known, ev)"
| "load_persons ((person_name, File) # rest) known ev = load_persons rest known ev"
| "load_persons ((person_name, Dir (Inl e)) # rest) known ev = (Inl e, ev)"
| "load_persons ((person_name, Dir (Inr images)) # rest) known ev =
     (let (encodings, ev') = load_images person_name images
      in load_persons rest
           (if encodings \<noteq> [] then AList.update person_name encodings known else known)
           (ev @ ev'))"

definition load_known_faces ::
  "py_exn + (string \<times> 'e entry) list \<Rightarrow> (py_exn + 'e known_faces) \<times> fr_message list" where
  \<comment> \<open>the argument is what \<open>os.listdir(dataset_path)\<close> gives, with each entry's contents\<close>
  "load_known_faces dataset =
     (case dataset of
        Inl e \<Rightarrow> (Inl e, [])
      | Inr entries \<Rightarrow> load_persons entries [] [])"

definition compare_faces :: "('e \<Rightarrow> 'e \<Rightarrow> bool) \<Rightarrow> 'e list \<Rightarrow> 'e \<Rightarrow> bool list" where
  "compare_faces matches encodings e = map (\<lambda>known. matches known e) encodings"

definition any :: "bool list \<Rightarrow> bool" where
  "any bs = list_ex (\<lambda>b. b) bs"

fun find_person :: "('e \<Rightarrow> 'e \<Rightarrow> bool) \<Rightarrow> 'e \<Rightarrow> 'e known_faces \<Rightarrow> string" where
  \<comment> \<open>lines 42 to 47: the loop over \<open>known_faces.items()\<close> and the return after it\<close>
  "find_person matches e [] = ''Unknown''"
| "find_person matches e ((person_name, encodings) # rest) =
     (if any (compare_faces matches encodings e) then person_name
      else find_person matches e rest)"

definition recognize_face ::
  "('e \<Rightarrow> 'e \<Rightarrow> bool) \<Rightarrow> 'e image \<Rightarrow> 'e known_faces
     \<Rightarrow> (py_exn + string option) \<times> fr_message list" where
  \<comment> \<open>\<open>Inl\<close>: the exception leaves the function; \<open>Inr None\<close>: it returns \<open>None\<close>\<close>
  "recognize_face matches unknown_image known =
     (case unknown_image of
        Inl FileNotFoundError \<Rightarrow> (Inr None, [ErrorLoadingImage FileNotFoundError])
      | Inl e \<Rightarrow> (Inl e, [])
      | Inr [] \<Rightarrow> (Inr None, [NoFaceFound])
      | Inr (unknown_encoding # others) \<Rightarrow>
          (Inr (Some (find_person matches unknown_encoding known)), []))"

section \<open>main.py: \<open>recognize_faces_worker\<close>\<close>

definition name_face :: "('e \<Rightarrow> 'e \<Rightarrow> bool) \<Rightarrow> 'e known_faces \<Rightarrow> box \<times> 'e \<Rightarrow> face" where
  \<comment> \<open>lines 40 to 53, for one detected face\<close>
  "name_face matches known d =
     (case d of ((top', right', bottom', left'), face_encoding) \<Rightarrow>
        ((top' * 4, right' * 4, bottom' * 4, left' * 4),
         if known \<noteq> [] then find_person matches face_encoding known else ''Unknown''))"

definition worker_iteration ::
  "('e \<Rightarrow> 'e \<Rightarrow> bool) \<Rightarrow> 'e known_faces \<Rightarrow> (frame \<Rightarrow> (box \<times> 'e) list)
     \<Rightarrow> frame option py_queue \<times> face list py_queue
     \<Rightarrow> (frame option py_queue \<times> face list py_queue) outcome" where
  \<comment> \<open>lines 22 to 57; \<open>detect\<close> is \<open>zip(face_locations, face_encodings)\<close> of the small frame\<close>
  "worker_iteration matches known detect qs =
     (case qs of (fq, rq) \<Rightarrow>
        (case q_get fq of
           None \<Rightarrow> Blocks
         | Some (None, fq') \<Rightarrow> Break (fq', rq)
         | Some (Some fr, fq') \<Rightarrow>
             (case q_put rq (map (name_face matches known) (detect fr)) of
                None \<Rightarrow> Blocks
              | Some rq' \<Rightarrow> Continue (fq', rq'))))"

section \<open>asr.py: \<open>ASRListener._listen_worker\<close>\<close>

record asr_inputs =
  still_listening :: bool  \<comment> \<open>\<open>self.listening\<close> at line 54\<close>
  tts_speaking :: "bool option"  \<comment> \<open>lines 58 and 59; \<open>None\<close> is the \<open>ImportError\<close>\<close>
  microphone :: "py_exn option"  \<comment> \<open>entering the \<open>with\<close> blocks, lines 66 and 67\<close>
  heard :: "py_exn + audio"  \<comment> \<open>\<open>recognizer.listen\<close>, line 70\<close>
  recognized :: "py_exn + string"  \<comment> \<open>\<open>recognizer.recognize_google\<close>, line 75\<close>

datatype asr_message =
    Pausing | Listening | Processing | Recognized string
  | CouldNotUnderstand | CouldNotRequest string | LoopError py_exn

datatype asr_event =
    APrint asr_message
  | AListen  \<comment> \<open>a call of \<open>recognizer.listen\<close>\<close>
  | ARecognize audio  \<comment> \<open>a call of \<open>recognizer.recognize_google\<close>\<close>
  | ASleep real

definition outer_handler :: "py_exn \<Rightarrow> asr_event list" where
  \<comment> \<open>lines 83 to 88\<close>
  "outer_handler e =
     (if e = WaitTimeoutError then [] else [APrint (LoopError e), ASleep 1])"

definition listen_iteration ::
  "asr_inputs \<Rightarrow> string py_queue \<Rightarrow> string py_queue outcome \<times> asr_event list" where
  \<comment> \<open>the body of the \<open>while\<close> loop, lines 55 to 88\<close>
  "listen_iteration inp q =
     (if tts_speaking inp = Some True then (Continue q, [APrint Pausing, ASleep 0.5])
      else case microphone inp of
        Some e \<Rightarrow> (Continue q, outer_handler e)
      | None \<Rightarrow>
         (case heard inp of
            Inl e \<Rightarrow> (Continue q, [APrint Listening, AListen] @ outer_handler e)
          | Inr a \<Rightarrow>
             (let ev = [APrint Listening, AListen, APrint Processing, ARecognize a]
              in case recognized inp of
                   Inr text \<Rightarrow>
                     (case q_put q text of
                        None \<Rightarrow> (Blocks, ev @ [APrint (Recognized text)])
                      | Some q' \<Rightarrow> (Continue q', ev @ [APrint (Recognized text)]))
                 | Inl UnknownValueError \<Rightarrow> (Continue q, ev @ [APrint CouldNotUnderstand])
                 | Inl (RequestError e) \<Rightarrow> (Continue q, ev @ [APrint (CouldNotRequest e)])
                 | Inl e \<Rightarrow> (Continue q, ev @ outer_handler e))))"

fun listen_worker ::
  "asr_inputs list \<Rightarrow> string py_queue \<Rightarrow> string py_queue outcome \<times> asr_event list" where
  \<comment> \<open>the loop over what its iterations meet; it is still running when the list ends\<close>
  "listen_worker [] q = (Continue q, [])"
| "listen_worker (inp # rest) q =
     (if \<not> still_listening inp then (Break q, [])
      else case listen_iteration inp q of
             (Continue q', ev) \<Rightarrow>
               (let (out, ev') = listen_worker rest q' in (out, ev @ ev'))
           | (out, ev) \<Rightarrow> (out, ev))"

section \<open>tts.py\<close>

text \<open>
  The polling loop \<open>while pygame.mixer.music.get_busy()\<close> ends after some polls, raises
  at one, or never ends.
\<close>

datatype busy = BusyFor nat | BusyRaises nat py_exn | BusyForever

record tts_inputs =
  tempfile :: "py_exn + string"  \<comment> \<open>\<open>NamedTemporaryFile\<close>, lines 47 and 48\<close>
  synthesis :: "py_exn option"  \<comment> \<open>\<open>gTTS\<close> and \<open>tts.save\<close>, lines 51 and 52\<close>
  load :: "py_exn option"  \<comment> \<open>\<open>pygame.mixer.music.load\<close>, line 55\<close>
  play :: "py_exn option"  \<comment> \<open>\<open>pygame.mixer.music.play\<close>, line 56\<close>
  polling :: busy  \<comment> \<open>lines 60 and 61\<close>

datatype tts_event =
    Synthesizing string  \<comment> \<open>line 40\<close>
  | SetSpeaking bool  \<comment> \<open>an assignment to the global \<open>is_speaking\<close>\<close>
  | MakeTempfile | Synthesize string | Load | Play
  | Wait nat  \<comment> \<open>the polls that found the mixer busy\<close>
  | RemoveFile  \<comment> \<open>line 70, its own failure swallowed\<close>
  | StartCleanup  \<comment> \<open>the thread of line 90\<close>
  | TTSError py_exn  \<comment> \<open>line 95\<close>

datatype tts_result = Returned bool | Hangs

definition is_tts_speaking :: "bool \<Rightarrow> bool" where
  "is_tts_speaking is_speaking = is_speaking"

definition text_to_speech ::
  "tts_inputs \<Rightarrow> string \<Rightarrow> bool \<Rightarrow> bool \<Rightarrow> tts_result \<times> bool \<times> tts_event list" where
  \<comment> \<open>text, \<open>blocking\<close>, and \<open>is_speaking\<close> before; the result, \<open>is_speaking\<close> after, the trace\<close>
  "text_to_speech inp text blocking is_speaking =
     (let ev0 = [Synthesizing text, SetSpeaking True]
      in case tempfile inp of
        Inl e \<Rightarrow> (Returned False, True, ev0 @ [MakeTempfile, TTSError e])
      | Inr temp_file \<Rightarrow>
         (case synthesis inp of
            Some e \<Rightarrow> (Returned False, True, ev0 @ [MakeTempfile, Synthesize text, TTSError e])
          | None \<Rightarrow>
             (case load inp of
                Some e \<Rightarrow>
                  (Returned False, True, ev0 @ [MakeTempfile, Synthesize text, Load, TTSError e])
              | None \<Rightarrow>
                 (case play inp of
                    Some e \<Rightarrow>
                      (Returned False, True,
                       ev0 @ [MakeTempfile, Synthesize text, Load, Play, TTSError e])
                  | None \<Rightarrow>
                     (let ev1 = ev0 @ [MakeTempfile, Synthesize text, Load, Play]
                      in if blocking then
                           case polling inp of
                             BusyFor n \<Rightarrow>
                               (Returned True, False,
                                ev1 @ [Wait n, SetSpeaking False, RemoveFile])
                           | BusyRaises n e \<Rightarrow>
                               (Returned False, True, ev1 @ [Wait n, TTSError e])
                           | BusyForever \<Rightarrow> (Hangs, True, ev1)
                         else (Returned True, True, ev1 @ [StartCleanup]))))))"

definition text_to_speech_async :: "tts_inputs \<Rightarrow> string \<Rightarrow> bool \<Rightarrow> tts_result \<times> bool \<times> tts_event list" where
  \<comment> \<open>what the thread started at lines 101 to 107 runs\<close>
  "text_to_speech_async inp text is_speaking = text_to_speech inp text True is_speaking"

section \<open>Auxiliary notions\<close>

text \<open>
  What the loop of lines 126 to 141 does when an alert is due: the first unknown face
  raises it, and no later face of the same iteration can (see \<open>fold_guard_face\<close> below).
\<close>

definition raise_alert :: "real \<Rightarrow> state \<Rightarrow> state \<times> event list" where
  "raise_alert t s =
     (if conversation_mode s then
        (s\<lparr>last_unknown_alert_time := t\<rparr>,
         [Print AlertBanner, Print AlertUnknownPerson, Print AlertBanner])
      else
        (s\<lparr>conversation_mode := True, conversation_timeout := t + 60,
           conversation_manager := (conversation_manager s)
             \<lparr>conversation_active := True, conversation_history := [(Assistant, opening_message)]\<rparr>,
           last_unknown_alert_time := t\<rparr>,
         [Print AlertBanner, Print AlertUnknownPerson, Print AlertBanner,
          Print StartingConversation, Print LLMStarted, Speak opening_message]))"

text \<open>The events that are a line on the terminal.\<close>

definition printed :: "event \<Rightarrow> bool" where
  "printed e = (case e of Print m \<Rightarrow> True | _ \<Rightarrow> False)"

text \<open>An iteration in which nothing happens outside, for the examples.\<close>

definition quiet :: inputs where
  "quiet = \<lparr>read_frame = Some 7, time_guard = 100, key = -1,
            generate = (\<lambda>h. Inl (OtherError [])), time_reset = 100, time_check = 100\<rparr>"

text \<open>A face the worker could not name, and states and inputs for the examples.\<close>

definition unknown_face :: face where
  "unknown_face = ((0, 0, 0, 0), ''Unknown'')"

definition guarding :: state where
  "guarding =
     \<lparr>frame_queue = Queue 1, result_queue = \<lparr>maxsize = 1, items = [[unknown_face]]\<rparr>,
      text_queue = Queue 0, conversation_manager = new_manager False,
      conversation_mode = False, conversation_timeout = 0, recognized_faces = [],
      frame_count = 1, guard_mode = True, last_unknown_alert_time = 0\<rparr>"

definition late :: inputs where
  "late = quiet\<lparr>time_check := 200\<rparr>"

definition conversing :: state where
  "conversing =
     guarding\<lparr>result_queue := Queue 1, recognized_faces := [unknown_face],
       text_queue := \<lparr>maxsize = 0, items = [''quit'']\<rparr>,
       conversation_mode := True, conversation_timeout := 160,
       conversation_manager := fst (snd (start_conversation (new_manager False))),
       last_unknown_alert_time := 100\<rparr>"

text \<open>The lines that the conversation manager prints.\<close>

definition llm_line :: "event \<Rightarrow> bool" where
  "llm_line e =
     (case e of
        Print LLMStarted \<Rightarrow> True
      | Print (LLMProcessing t) \<Rightarrow> True
      | Print (LLMGenerated t) \<Rightarrow> True
      | Print (LLMError x) \<Rightarrow> True
      | _ \<Rightarrow> False)"

text \<open>
  The flag of the main loop and the flag of the conversation manager agree; this holds
  at the head of every iteration (\<open>reachable_in_step\<close> below).
\<close>

definition in_step :: "state \<Rightarrow> bool" where
  "in_step s = (conversation_mode s = conversation_active (conversation_manager s))"

text \<open>
  A dataset in which no directory listing fails, what one image adds to a person's
  encodings, and the line an image that raises gets.
\<close>

definition listings_ok :: "(string \<times> 'e entry) list \<Rightarrow> bool" where
  "listings_ok entries =
     list_all (\<lambda>p. case snd p of Dir (Inl e) \<Rightarrow> False | _ \<Rightarrow> True) entries"

definition encoded :: "'e image \<Rightarrow> 'e list" where
  "encoded img = (case img of Inr (first # others) \<Rightarrow> [first] | _ \<Rightarrow> [])"

definition complaint :: "string \<Rightarrow> string \<times> 'e image \<Rightarrow> fr_message list" where
  "complaint person p =
     (case snd p of Inl e \<Rightarrow> [ErrorProcessingImage person (fst p) e] | Inr es \<Rightarrow> [])"

text \<open>The events that are a call of the speech recognition service.\<close>

definition is_recognize :: "asr_event \<Rightarrow> bool" where
  "is_recognize e = (case e of ARecognize a \<Rightarrow> True | _ \<Rightarrow> False)"

text \<open>
  For the examples: a matching predicate on numbers (encodings within 6 of each other),
  a dataset on disk, what the listener can meet, and a synthesis that fails.
\<close>

definition near :: "int \<Rightarrow> int \<Rightarrow> bool" where
  "near known e = (\<bar>known - e\<bar> \<le> 6)"

definition hears :: "py_exn + string \<Rightarrow> asr_inputs" where
  "hears r = \<lparr>still_listening = True, tts_speaking = Some False, microphone = None,
              heard = Inr 1, recognized = r\<rparr>"

definition silence :: asr_inputs where
  "silence = \<lparr>still_listening = True, tts_speaking = Some False, microphone = None,
               heard = Inl WaitTimeoutError, recognized = Inl UnknownValueError\<rparr>"

definition paused :: asr_inputs where
  "paused = \<lparr>still_listening = True, tts_speaking = Some True, microphone = None,
              heard = Inr 1, recognized = Inr ''hello''\<rparr>"

definition dataset :: "(string \<times> int entry) list" where
  "dataset =
     [(''alice'', Dir (Inr [(''a1.jpg'', Inl (OtherError ''truncated'')), (''a2.jpg'', Inr [10])])),
      (''bob'', Dir (Inr [(''b1.jpg'', Inl (OtherError ''truncated'')), (''b2.jpg'', Inr [])])),
      (''notes.txt'', File)]"

definition no_network :: tts_inputs where
  "no_network = \<lparr>tempfile = Inr ''speech.mp3'', synthesis = Some (OtherError ''gTTSError''),
                  load = None, play = None, polling = BusyFor 3\<rparr>"

text \<open>The capacities the three queues are created with.\<close>

definition capacities :: "state \<Rightarrow> bool" where
  "capacities s =
     (maxsize (frame_queue s) = 1 \<and> maxsize (result_queue s) = 1 \<and> maxsize (text_queue s) = 0)"

section \<open>Strings and queues\<close>

lemma startswith_iff: "startswith s p \<longleftrightarrow> (\<exists>r. s = p @ r)"
  by (induction s p rule: startswith.induct) auto

lemma contains_iff: "contains sub s \<longleftrightarrow> (\<exists>ps ss. s = ps @ sub @ ss)"
proof (induction s)
  case Nil
  then show ?case by auto
next
  case (Cons c cs)
  show ?case
  proof
    assume "contains sub (c # cs)"
    then consider "startswith (c # cs) sub" | "contains sub cs" by auto
    then show "\<exists>ps ss. c # cs = ps @ sub @ ss"
    proof cases
      case 1
      then obtain r where "c # cs = sub @ r" by (auto simp: startswith_iff)
      then have "c # cs = [] @ sub @ r" by simp
      then show ?thesis by blast
    next
      case 2
      then obtain ps ss where "cs = ps @ sub @ ss" using Cons.IH by blast
      then have "c # cs = (c # ps) @ sub @ ss" by simp
      then show ?thesis by blast
    qed
  next
    assume "\<exists>ps ss. c # cs = ps @ sub @ ss"
    then obtain ps ss where eq: "c # cs = ps @ sub @ ss" by blast
    show "contains sub (c # cs)"
    proof (cases ps)
      case Nil
      then have "startswith (c # cs) sub" using eq by (auto simp: startswith_iff)
      then show ?thesis by simp
    next
      case (Cons p ps')
      then have "cs = ps' @ sub @ ss" using eq by simp
      then have "contains sub cs" using Cons.IH by blast
      then show ?thesis by simp
    qed
  qed
qed

lemma q_put_not_full: "\<not> q_full q \<Longrightarrow> q_put q x = Some (q\<lparr>items := items q @ [x]\<rparr>)"
  by (simp add: q_put_def)

lemma q_get_not_empty: "\<not> q_empty q \<Longrightarrow> q_get q = Some (hd (items q), q\<lparr>items := tl (items q)\<rparr>)"
  by (cases "items q") (simp_all add: q_get_def q_empty_def)

lemma submit_frame_eq:
  "submit_frame fr s =
     Some (if frame_count s mod 3 = 0 \<and> \<not> q_full (frame_queue s)
           then (s\<lparr>frame_queue := (frame_queue s)\<lparr>items := items (frame_queue s) @ [Some fr]\<rparr>\<rparr>,
                 [SubmitFrame fr])
           else (s, []))"
  by (simp add: submit_frame_def process_every_n_frames_def q_put_not_full)

lemma poll_results_eq:
  "poll_results s =
     Some (if q_empty (result_queue s) then s
           else s\<lparr>recognized_faces := hd (items (result_queue s)),
                  result_queue := (result_queue s)\<lparr>items := tl (items (result_queue s))\<rparr>\<rparr>)"
  by (simp add: poll_results_def q_get_not_empty)

lemma guard_face_quiet:
  "\<not> (snd f = ''Unknown'' \<and> t - last_unknown_alert_time s > 10) \<Longrightarrow> guard_face t f (s, ev) = (s, ev)"
  by (auto simp: guard_face_def)

lemma guard_face_alert:
  "snd f = ''Unknown'' \<Longrightarrow> t - last_unknown_alert_time s > 10 \<Longrightarrow>
   guard_face t f (s, ev) = (fst (raise_alert t s), ev @ snd (raise_alert t s))"
  by (simp add: guard_face_def raise_alert_def start_conversation_def Let_def)

lemma fold_guard_face_recent:
  "\<not> t - last_unknown_alert_time s > 10 \<Longrightarrow> fold (guard_face t) fs (s, ev) = (s, ev)"
  by (induction fs) (simp_all add: guard_face_quiet)

lemma raise_alert_last: "last_unknown_alert_time (fst (raise_alert t s)) = t"
  by (simp add: raise_alert_def)

lemma fold_guard_face:
  "fold (guard_face t) fs (s, ev) =
     (if (\<exists>f\<in>set fs. snd f = ''Unknown'') \<and> t - last_unknown_alert_time s > 10
      then (fst (raise_alert t s), ev @ snd (raise_alert t s)) else (s, ev))"
proof (induction fs)
  case Nil
  show ?case by simp
next
  case (Cons f fs)
  show ?case
  proof (cases "snd f = ''Unknown'' \<and> t - last_unknown_alert_time s > 10")
    case True
    then have "fold (guard_face t) (f # fs) (s, ev) =
        fold (guard_face t) fs (fst (raise_alert t s), ev @ snd (raise_alert t s))"
      by (simp add: guard_face_alert)
    also have "\<dots> = (fst (raise_alert t s), ev @ snd (raise_alert t s))"
      by (rule fold_guard_face_recent) (simp add: raise_alert_last)
    finally show ?thesis using True by simp
  next
    case False
    then have "fold (guard_face t) (f # fs) (s, ev) = fold (guard_face t) fs (s, ev)"
      by (simp add: guard_face_quiet)
    then show ?thesis using False Cons.IH by auto
  qed
qed

lemma guard_phase_eq:
  "guard_phase t s =
     (if guard_mode s \<and> (\<exists>f\<in>set (recognized_faces s). snd f = ''Unknown'')
         \<and> t - last_unknown_alert_time s > 10
      then raise_alert t s else (s, []))"
  by (simp add: guard_phase_def fold_guard_face)

lemma get_text_eq:
  "get_text q = Inr (case items q of [] \<Rightarrow> (None, q) | x # xs \<Rightarrow> (Some x, q\<lparr>items := xs\<rparr>))"
  by (simp add: get_text_def q_get_nowait_def split: list.splits)

lemma asr_phase_empty: "items (text_queue s) = [] \<Longrightarrow> asr_phase inp s = (Continue s, [])"
  by (simp add: asr_phase_def has_text_def q_empty_def)

lemma asr_phase_conversation:
  "items (text_queue s) = text # rest \<Longrightarrow> conversation_mode s \<Longrightarrow>
   asr_phase inp s =
     (case process_intruder_response (generate inp) (conversation_manager s) text of
        (ai_response, m, evm) \<Rightarrow>
          (Continue (s\<lparr>text_queue := (text_queue s)\<lparr>items := rest\<rparr>,
                       conversation_manager := m,
                       conversation_timeout := time_reset inp + 60\<rparr>),
           [Print (VoiceCommand text), Print (IntruderSaid text)] @ evm
             @ [Print (SecurityAI ai_response), Speak ai_response]))"
  by (simp add: asr_phase_def has_text_def q_empty_def get_text_eq split: prod.splits)

lemma asr_phase_command:
  "items (text_queue s) = text # rest \<Longrightarrow> \<not> conversation_mode s \<Longrightarrow>
   asr_phase inp s =
     (case voice_command text (s\<lparr>text_queue := (text_queue s)\<lparr>items := rest\<rparr>\<rparr>) of
        (out, evc) \<Rightarrow> (out, Print (VoiceCommand text) # evc))"
  by (simp add: asr_phase_def has_text_def q_empty_def get_text_eq split: prod.splits)

lemma manager_events:
  "list_all printed (snd (snd (start_conversation m)))"
  "list_all printed (snd (end_conversation m))"
  "list_all printed (snd (snd (generate_response g m text)))"
  by (auto simp: start_conversation_def end_conversation_def generate_response_def printed_def Let_def
      split: sum.splits prod.splits)

lemma process_events: "list_all printed (snd (snd (process_intruder_response g m text)))"
  using manager_events(1)[of m] manager_events(3)[of g m "text"]
  by (auto simp: process_intruder_response_def printed_def split: prod.splits)

lemma voice_command_events: "list_all printed (snd (voice_command text s))"
  using manager_events(2)[of "conversation_manager s"]
  by (auto simp: voice_command_def printed_def Let_def split: prod.splits)

lemma voice_command_outcome:
  "(\<exists>s'. fst (voice_command text s) = Continue s') \<or> (\<exists>s'. fst (voice_command text s) = Break s')"
  by (auto simp: voice_command_def Let_def split: prod.splits)

lemma asr_phase_outcome:
  "(\<exists>s'. fst (asr_phase inp s) = Continue s') \<or> (\<exists>s'. fst (asr_phase inp s) = Break s')"
proof (cases "items (text_queue s)")
  case Nil
  then show ?thesis by (simp add: asr_phase_empty)
next
  case (Cons utt rest)
  show ?thesis
  proof (cases "conversation_mode s")
    case True
    then show ?thesis using Cons by (simp add: asr_phase_conversation split: prod.splits)
  next
    case False
    then show ?thesis
      using Cons voice_command_outcome[of utt "s\<lparr>text_queue := (text_queue s)\<lparr>items := rest\<rparr>\<rparr>"]
      by (auto simp: asr_phase_command split: prod.splits)
  qed
qed

lemma printed_no_submit: "list_all printed evs \<Longrightarrow> SubmitFrame f \<notin> set evs"
  by (auto simp: list_all_iff printed_def)

lemma asr_phase_no_submit: "SubmitFrame f \<notin> set (snd (asr_phase inp s))"
proof (cases "items (text_queue s)")
  case Nil
  then show ?thesis by (simp add: asr_phase_empty)
next
  case (Cons utt rest)
  show ?thesis
  proof (cases "conversation_mode s")
    case True
    then show ?thesis
      using Cons printed_no_submit[OF process_events[of "generate inp" "conversation_manager s" utt], of f]
      by (auto simp: asr_phase_conversation split: prod.splits)
  next
    case False
    then show ?thesis
      using Cons printed_no_submit[OF voice_command_events[of utt "s\<lparr>text_queue := (text_queue s)\<lparr>items := rest\<rparr>\<rparr>"], of f]
      by (auto simp: asr_phase_command split: prod.splits)
  qed
qed

lemma timeout_phase_no_submit: "SubmitFrame f \<notin> set (snd (timeout_phase t s))"
  by (auto simp: timeout_phase_def end_conversation_def Let_def split: prod.splits)

lemma guard_phase_no_submit: "SubmitFrame f \<notin> set (snd (guard_phase t s))"
  by (auto simp: guard_phase_eq raise_alert_def)

lemma display_phase_no_submit: "SubmitFrame f \<notin> set (snd (display_phase k s))"
  by (auto simp: display_phase_def)

lemma before_timeout_frame:
  "read_frame inp = Some fr \<Longrightarrow>
   before_timeout inp s =
     (case the (submit_frame fr (s\<lparr>frame_count := frame_count s + 1\<rparr>)) of (s1, e1) \<Rightarrow>
        case guard_phase (time_guard inp) (the (poll_results s1)) of (s3, e3) \<Rightarrow>
          case display_phase (key inp) s3 of (quit, e4) \<Rightarrow>
            if quit then (Break s3, e1 @ e3 @ e4)
            else case asr_phase inp s3 of (out, e5) \<Rightarrow> (out, e1 @ e3 @ e4 @ e5))"
  by (simp add: before_timeout_def submit_frame_eq poll_results_eq split: prod.splits)

lemma before_timeout_outcome:
  "(\<exists>s'. fst (before_timeout inp s) = Continue s') \<or> (\<exists>s'. fst (before_timeout inp s) = Break s')"
proof (cases "read_frame inp")
  case None
  then show ?thesis by (simp add: before_timeout_def)
next
  case (Some fr)
  show ?thesis
    unfolding before_timeout_frame[OF Some]
    using asr_phase_outcome by (auto split: prod.splits) (metis fst_conv)+
qed

lemma loop_body_outcome:
  "(\<exists>s'. fst (loop_body inp s) = Continue s') \<or> (\<exists>s'. fst (loop_body inp s) = Break s')"
  using before_timeout_outcome[of inp s]
  by (auto simp: loop_body_def split: prod.splits outcome.splits)

lemma before_timeout_submit:
  "SubmitFrame f \<in> set (snd (before_timeout inp s)) \<longleftrightarrow>
     read_frame inp = Some f \<and> (frame_count s + 1) mod 3 = 0 \<and> \<not> q_full (frame_queue s)"
proof (cases "read_frame inp")
  case None
  then show ?thesis by (simp add: before_timeout_def)
next
  case (Some fr)
  show ?thesis
    unfolding before_timeout_frame[OF Some]
    using Some asr_phase_no_submit guard_phase_no_submit display_phase_no_submit
    by (auto simp: submit_frame_eq split: prod.splits) (metis snd_conv)+
qed



section \<open>The phases of an iteration\<close>

lemma state_before_guard:
  assumes "s2 = the (poll_results (fst (the (submit_frame fr (s\<lparr>frame_count := frame_count s + 1\<rparr>)))))"
  shows "guard_mode s2 = guard_mode s" "conversation_mode s2 = conversation_mode s"
    "last_unknown_alert_time s2 = last_unknown_alert_time s"
    "conversation_manager s2 = conversation_manager s"
    "conversation_timeout s2 = conversation_timeout s"
    "text_queue s2 = text_queue s"
    "recognized_faces s2 =
       (if q_empty (result_queue s) then recognized_faces s else hd (items (result_queue s)))"
  using assms by (simp_all add: submit_frame_eq poll_results_eq)

lemma loop_events_guard:
  assumes "read_frame inp = Some fr"
    and "s2 = the (poll_results (fst (the (submit_frame fr (s\<lparr>frame_count := frame_count s + 1\<rparr>)))))"
  shows "set (snd (guard_phase (time_guard inp) s2)) \<subseteq> set (snd (loop_body inp s))"
  unfolding loop_body_def before_timeout_frame[OF assms(1)] assms(2)
  by (auto split: prod.splits outcome.splits)

lemma process_events_llm: "list_all llm_line (snd (snd (process_intruder_response g m utt)))"
  by (auto simp: process_intruder_response_def start_conversation_def generate_response_def
      llm_line_def Let_def split: sum.splits prod.splits)

lemma llm_line_not_command:
  "list_all llm_line evs \<Longrightarrow>
     Print GuardActivated \<notin> set evs \<and> Print GuardDeactivated \<notin> set evs
     \<and> Print QuitReceived \<notin> set evs"
  by (auto simp: list_all_iff llm_line_def)

lemma guard_phase_conversing:
  assumes "conversation_mode s"
  shows "conversation_mode (fst (guard_phase t s))"
    "conversation_manager (fst (guard_phase t s)) = conversation_manager s"
    "text_queue (fst (guard_phase t s)) = text_queue s"
    "guard_mode (fst (guard_phase t s)) = guard_mode s"
  using assms by (simp_all add: guard_phase_eq raise_alert_def)

lemma timeout_phase_keeps:
  "conversation_timeout (fst (timeout_phase t s)) = conversation_timeout s"
  "guard_mode (fst (timeout_phase t s)) = guard_mode s"
  by (simp_all add: timeout_phase_def end_conversation_def Let_def split: prod.splits)

lemma loop_body_conversation:
  assumes "read_frame inp = Some fr" and "\<not> (guard_mode s \<and> key inp AND 255 = 113)"
    and "conversation_mode s" and "items (text_queue s) = utt # rest"
  shows "\<exists>s'. fst (loop_body inp s) = Continue s'
      \<and> conversation_timeout s' = time_reset inp + 60 \<and> guard_mode s' = guard_mode s
      \<and> Speak (fst (process_intruder_response (generate inp) (conversation_manager s) utt))
          \<in> set (snd (loop_body inp s))"
proof -
  define s2 where "s2 = the (poll_results (fst (the (submit_frame fr (s\<lparr>frame_count := frame_count s + 1\<rparr>)))))"
  define s3 where "s3 = fst (guard_phase (time_guard inp) s2)"
  note b = state_before_guard[OF s2_def]
  have c2: "conversation_mode s2" using assms(3) b(2) by simp
  have c3: "conversation_mode s3" "conversation_manager s3 = conversation_manager s"
    "items (text_queue s3) = utt # rest" "guard_mode s3 = guard_mode s"
    using guard_phase_conversing[OF c2, of "time_guard inp"] b assms(4) by (simp_all add: s3_def)
  have d: "fst (display_phase (key inp) s3) = False"
    using assms(2) c3(4) by (auto simp: display_phase_def)
  obtain reply m evm where
    p: "process_intruder_response (generate inp) (conversation_manager s) utt = (reply, m, evm)"
    by (metis prod_cases3)
  have a: "asr_phase inp s3 =
      (Continue (s3\<lparr>text_queue := (text_queue s3)\<lparr>items := rest\<rparr>, conversation_manager := m,
                    conversation_timeout := time_reset inp + 60\<rparr>),
       [Print (VoiceCommand utt), Print (IntruderSaid utt)] @ evm
         @ [Print (SecurityAI reply), Speak reply])"
    using c3 p by (simp add: asr_phase_conversation)
  obtain s1 e1 where s1: "the (submit_frame fr (s\<lparr>frame_count := frame_count s + 1\<rparr>)) = (s1, e1)"
    by (metis surj_pair)
  obtain e3 where g: "guard_phase (time_guard inp) (the (poll_results s1)) = (s3, e3)"
    using s1 by (simp add: s3_def s2_def) (metis prod.collapse)
  obtain e4 where d4: "display_phase (key inp) s3 = (False, e4)"
    using d by (cases "display_phase (key inp) s3") auto
  let ?s5 = "s3\<lparr>text_queue := (text_queue s3)\<lparr>items := rest\<rparr>, conversation_manager := m,
                    conversation_timeout := time_reset inp + 60\<rparr>"
  let ?e = "e1 @ e3 @ e4 @ [Print (VoiceCommand utt), Print (IntruderSaid utt)] @ evm
         @ [Print (SecurityAI reply), Speak reply]"
  have bt: "before_timeout inp s = (Continue ?s5, ?e)"
    by (simp add: before_timeout_frame[OF assms(1)] s1 g d4 a)
  obtain s6 e6 where t: "timeout_phase (time_check inp) ?s5 = (s6, e6)"
    by (metis surj_pair)
  have lb: "loop_body inp s = (Continue s6, ?e @ e6)"
    by (simp add: loop_body_def bt t)
  have "conversation_timeout s6 = time_reset inp + 60" "guard_mode s6 = guard_mode s"
    using timeout_phase_keeps[of "time_check inp" ?s5] t c3(4) by simp_all
  then show ?thesis using lb p by simp
qed

section \<open>The two flags of a conversation\<close>

lemma in_step_guard: "in_step s \<Longrightarrow> in_step (fst (guard_phase t s))"
  by (simp add: in_step_def guard_phase_eq raise_alert_def)

lemma process_keeps_active:
  "conversation_active (fst (snd (process_intruder_response g m utt)))"
  by (simp add: process_intruder_response_def start_conversation_def generate_response_def
      Let_def split: prod.splits sum.splits)

lemma in_step_asr:
  assumes "in_step s" and "asr_phase inp s = (Continue s', ev)"
  shows "in_step s'"
proof (cases "items (text_queue s)")
  case Nil
  then show ?thesis using assms by (simp add: asr_phase_empty)
next
  case (Cons utt rest)
  show ?thesis
  proof (cases "conversation_mode s")
    case True
    then show ?thesis
      using assms Cons process_keeps_active[of "generate inp" "conversation_manager s" utt]
      by (auto simp: asr_phase_conversation in_step_def split: prod.splits)
  next
    case False
    then show ?thesis
      using assms Cons
      by (auto simp: asr_phase_command voice_command_def in_step_def Let_def
          is_conversation_active_def end_conversation_def split: prod.splits if_splits)
  qed
qed

lemma in_step_before_timeout:
  assumes "in_step s" and "before_timeout inp s = (Continue s5, ev)"
  shows "in_step s5"
proof (cases "read_frame inp")
  case None
  then show ?thesis using assms by (simp add: before_timeout_def)
next
  case (Some fr)
  define s2 where "s2 = the (poll_results (fst (the (submit_frame fr (s\<lparr>frame_count := frame_count s + 1\<rparr>)))))"
  define s3 where "s3 = fst (guard_phase (time_guard inp) s2)"
  have "in_step s2" using assms(1) state_before_guard(2,4)[OF s2_def] by (simp add: in_step_def)
  then have i3: "in_step s3" unfolding s3_def by (rule in_step_guard)
  obtain s1 e1 where s1: "the (submit_frame fr (s\<lparr>frame_count := frame_count s + 1\<rparr>)) = (s1, e1)"
    by (metis surj_pair)
  obtain e3 where g: "guard_phase (time_guard inp) (the (poll_results s1)) = (s3, e3)"
    using s1 by (simp add: s3_def s2_def) (metis prod.collapse)
  obtain q e4 where d4: "display_phase (key inp) s3 = (q, e4)" by (metis surj_pair)
  obtain out e5 where a: "asr_phase inp s3 = (out, e5)" by (metis surj_pair)
  have "out = Continue s5"
    using assms(2) by (simp add: before_timeout_frame[OF Some] s1 g d4 a split: if_splits)
  then show ?thesis using in_step_asr[OF i3] a by simp
qed

lemma in_step_timeout: "in_step s \<Longrightarrow> in_step (fst (timeout_phase t s))"
  by (auto simp: in_step_def timeout_phase_def is_conversation_active_def end_conversation_def Let_def)

lemma in_step_loop_body:
  assumes "in_step s" and "loop_body inp s = (Continue s', ev)"
  shows "in_step s'"
proof -
  obtain out e where bt: "before_timeout inp s = (out, e)" by (metis surj_pair)
  then obtain s5 where out: "out = Continue s5"
    using assms(2) by (cases out) (simp_all add: loop_body_def)
  have "in_step s5" using in_step_before_timeout[OF assms(1)] bt out by simp
  then have "in_step (fst (timeout_phase (time_check inp) s5))" by (rule in_step_timeout)
  then show ?thesis using assms(2) bt out by (auto simp: loop_body_def split: prod.splits)
qed

lemma reachable_in_step: "reachable s \<Longrightarrow> in_step s"
proof (induction rule: reachable.induct)
  case (start loaded)
  show ?case by (simp add: in_step_def initial_state_def new_manager_def)
next
  case (others s fs rs ts)
  then show ?case by (simp add: in_step_def)
next
  case (iteration s inp s' ev)
  then show ?case using in_step_loop_body by blast
qed

section \<open>Concrete runs\<close>

lemma lower_guard_my_room: "lower ''Guard my room'' = ''guard my room''"
  by (simp add: lower_def lower_char_def)

lemma loop_guard_my_room:
  "loop_body quiet ((initial_state False)\<lparr>text_queue := \<lparr>maxsize = 0, items = [''Guard my room'']\<rparr>\<rparr>)
   = (Continue ((initial_state False)\<lparr>frame_count := 1, guard_mode := True\<rparr>),
      [DestroyWindow, Sleep 0.1, Print (VoiceCommand ''Guard my room''),
       Print GuardActivated, Print GuardInfo])"
  by (simp add: loop_body_def before_timeout_def quiet_def initial_state_def Queue_def
      submit_frame_eq poll_results_eq q_empty_def guard_phase_eq display_phase_def
      asr_phase_command voice_command_def lower_guard_my_room timeout_phase_def new_manager_def)

lemma reachable_guarding: "reachable guarding"
proof -
  have "reachable (initial_state False)" by (rule reachable.start)
  from reachable.others[OF this, where fs = "[]" and rs = "[]" and ts = "[''Guard my room'']"]
  have "reachable ((initial_state False)\<lparr>text_queue := \<lparr>maxsize = 0, items = [''Guard my room'']\<rparr>\<rparr>)"
    by (simp add: initial_state_def Queue_def)
  from reachable.iteration[OF this loop_guard_my_room]
  have "reachable ((initial_state False)\<lparr>frame_count := 1, guard_mode := True\<rparr>)" .
  from reachable.others[OF this, where fs = "[]" and rs = "[[unknown_face]]" and ts = "[]"]
  show ?thesis by (simp add: initial_state_def Queue_def guarding_def)
qed

lemma before_timeout_late:
  "before_timeout late guarding =
     (Continue (guarding\<lparr>result_queue := Queue 1, recognized_faces := [unknown_face],
                  frame_count := 2, conversation_mode := True, conversation_timeout := 160,
                  conversation_manager := fst (snd (start_conversation (new_manager False))),
                  last_unknown_alert_time := 100\<rparr>),
      [Print AlertBanner, Print AlertUnknownPerson, Print AlertBanner,
       Print StartingConversation, Print LLMStarted, Speak opening_message, ShowVideo])"
  by (simp add: before_timeout_def late_def quiet_def guarding_def Queue_def
      submit_frame_eq poll_results_eq q_empty_def guard_phase_eq display_phase_def
      asr_phase_empty new_manager_def unknown_face_def raise_alert_def start_conversation_def)

lemma string_of_nat_1: "string_of_nat (Suc 0) = ''1''"
  by code_simp

lemma summary_ex: "get_conversation_summary \<lparr>conversation_active = True,
     conversation_history = [(Assistant, opening_message)], generator_loaded = False\<rparr> = 
   ''Conversation Summary:'' @ [CHR 0x0A] @ ''1. Security AI: '' @ opening_message @ [CHR 0x0A]"
  by (simp add: get_conversation_summary_def start_conversation_def summary_line_def
      string_of_nat_1 del: string_of_nat.simps)

section \<open>Recognising and loading faces\<close>

lemma any_compare_faces: "any (compare_faces m encs e) \<longleftrightarrow> (\<exists>k\<in>set encs. m k e)"
  by (auto simp: any_def compare_faces_def list_ex_iff)

lemma find_person_none:
  "(\<forall>p\<in>set kf. \<forall>k\<in>set (snd p). \<not> m k e) \<Longrightarrow> find_person m e kf = ''Unknown''"
  by (induction kf) (auto simp: any_compare_faces)

lemma find_person_first:
  "(\<forall>p\<in>set pre. \<forall>k\<in>set (snd p). \<not> m k e) \<Longrightarrow> \<exists>k\<in>set encs. m k e \<Longrightarrow>
   find_person m e (pre @ (name, encs) # post) = name"
  by (induction pre) (auto simp: any_compare_faces)

lemma find_person_result:
  "(\<exists>pre encs post. kf = pre @ (find_person m e kf, encs) # post
      \<and> (\<exists>k\<in>set encs. m k e) \<and> (\<forall>p\<in>set pre. \<forall>k\<in>set (snd p). \<not> m k e))
   \<or> (find_person m e kf = ''Unknown'' \<and> (\<forall>p\<in>set kf. \<forall>k\<in>set (snd p). \<not> m k e))"
proof (induction kf)
  case Nil
  show ?case by simp
next
  case (Cons a kf)
  obtain name encs where a: "a = (name, encs)" by (cases a)
  show ?case
  proof (cases "\<exists>k\<in>set encs. m k e")
    case True
    then have "find_person m e (a # kf) = name" by (simp add: a any_compare_faces)
    moreover have "a # kf = [] @ (name, encs) # kf" by (simp add: a)
    ultimately show ?thesis using True by (metis empty_iff list.set(1))
  next
    case False
    then have f: "find_person m e (a # kf) = find_person m e kf"
      by (simp add: a any_compare_faces)
    from Cons.IH show ?thesis
    proof
      assume "\<exists>pre encs post. kf = pre @ (find_person m e kf, encs) # post
        \<and> (\<exists>k\<in>set encs. m k e) \<and> (\<forall>p\<in>set pre. \<forall>k\<in>set (snd p). \<not> m k e)"
      then obtain pre encs' post where k: "kf = pre @ (find_person m e kf, encs') # post"
        "\<exists>k\<in>set encs'. m k e" "\<forall>p\<in>set pre. \<forall>k\<in>set (snd p). \<not> m k e" by blast
      have "a # kf = (a # pre) @ (find_person m e (a # kf), encs') # post"
        using k(1) f by simp
      moreover have "\<forall>p\<in>set (a # pre). \<forall>k\<in>set (snd p). \<not> m k e"
        using k(3) False by (simp add: a)
      ultimately show ?thesis using k(2) by blast
    next
      assume "find_person m e kf = ''Unknown'' \<and> (\<forall>p\<in>set kf. \<forall>k\<in>set (snd p). \<not> m k e)"
      then show ?thesis using False f by (simp add: a)
    qed
  qed
qed

lemma find_person_key: "find_person m e kf = ''Unknown'' \<or> find_person m e kf \<in> fst ` set kf"
  by (induction kf) force+

lemma load_images_encodings: "fst (load_images person imgs) = concat (map (\<lambda>p. encoded (snd p)) imgs)"
  by (induction imgs) (auto simp: encoded_def split: prod.splits sum.splits list.splits)

lemma load_images_messages: "snd (load_images person imgs) = concat (map (complaint person) imgs)"
  by (induction imgs) (auto simp: complaint_def split: prod.splits sum.splits list.splits)

lemma load_persons_keys:
  "listings_ok entries \<Longrightarrow>
   \<exists>kf. fst (load_persons entries known ev) = Inr kf
     \<and> fst ` set kf = fst ` set known
          \<union> {p. \<exists>imgs. (p, Dir (Inr imgs)) \<in> set entries \<and> fst (load_images p imgs) \<noteq> []}"
proof (induction entries known ev rule: load_persons.induct)
  case (1 known ev)
  show ?case by simp
next
  case (2 person_name rest known ev)
  then show ?case by (auto simp: listings_ok_def)
next
  case (3 person_name e rest known ev)
  then show ?case by (simp add: listings_ok_def)
next
  case (4 person_name images rest known ev)
  obtain encodings ev' where l: "load_images person_name images = (encodings, ev')"
    by (metis surj_pair)
  let ?known = "if encodings \<noteq> [] then AList.update person_name encodings known else known"
  have ok: "listings_ok rest" using "4.prems" by (simp add: listings_ok_def)
  from "4.IH"[OF l[symmetric] refl ok]
  obtain kf where kf: "fst (load_persons rest ?known (ev @ ev')) = Inr kf"
    "fst ` set kf = fst ` set ?known
       \<union> {p. \<exists>imgs. (p, Dir (Inr imgs)) \<in> set rest \<and> fst (load_images p imgs) \<noteq> []}"
    by blast
  have "fst (load_persons ((person_name, Dir (Inr images)) # rest) known ev) = Inr kf"
    using kf(1) l by simp
  moreover have "fst ` set kf = fst ` set known
       \<union> {p. \<exists>imgs. (p, Dir (Inr imgs)) \<in> set ((person_name, Dir (Inr images)) # rest)
              \<and> fst (load_images p imgs) \<noteq> []}"
    using kf(2) l by (auto simp: dom_update)
  ultimately show ?case by blast
qed

lemma encoded_some:
  "concat (map (\<lambda>p. encoded (snd p)) imgs) \<noteq> [] \<longleftrightarrow> (\<exists>n x xs. (n, Inr (x # xs)) \<in> set imgs)"
  by (induction imgs) (auto simp: encoded_def split: sum.splits list.splits)

section \<open>The listener while speech is playing\<close>

lemma paused_iteration:
  "tts_speaking i = Some True \<Longrightarrow> listen_iteration i q = (Continue q, [APrint Pausing, ASleep 0.5])"
  by (simp add: listen_iteration_def)

lemma paused_step:
  "still_listening i \<Longrightarrow> tts_speaking i = Some True \<Longrightarrow>
   listen_worker (i # inps) q =
     (fst (listen_worker inps q), [APrint Pausing, ASleep 0.5] @ snd (listen_worker inps q))"
  by (simp add: paused_iteration split: prod.splits)

lemma paused_worker:
  "\<forall>i\<in>set inps. still_listening i \<and> tts_speaking i = Some True \<Longrightarrow>
   listen_worker inps q = (Continue q, concat (map (\<lambda>i. [APrint Pausing, ASleep 0.5]) inps))"
proof (induction inps)
  case Nil
  show ?case by simp
next
  case (Cons i inps)
  from Cons.prems have a: "still_listening i" "tts_speaking i = Some True" by simp_all
  from Cons.prems have "\<forall>i\<in>set inps. still_listening i \<and> tts_speaking i = Some True" by simp
  then have b: "listen_worker inps q
      = (Continue q, concat (map (\<lambda>i. [APrint Pausing, ASleep 0.5]) inps))"
    by (rule Cons.IH)
  show ?case unfolding paused_step[OF a] b by simp
qed

lemma paused_no_listen:
  "AListen \<notin> set (concat (map (\<lambda>i. [APrint Pausing, ASleep 0.5]) (inps :: asr_inputs list)))"
  by (induction inps) simp_all

section \<open>The capacities of the queues\<close>

lemma capacities_guard: "capacities (fst (guard_phase t s)) = capacities s"
  by (simp add: capacities_def guard_phase_eq raise_alert_def)

lemma capacities_timeout: "capacities (fst (timeout_phase t s)) = capacities s"
  by (simp add: capacities_def timeout_phase_def end_conversation_def Let_def split: prod.splits)

lemma capacities_voice_command:
  "voice_command utt s = (Continue s', ev) \<Longrightarrow> capacities s' = capacities s"
  by (auto simp: voice_command_def capacities_def Let_def split: if_splits prod.splits)

lemma capacities_asr:
  assumes "asr_phase inp s = (Continue s', ev)"
  shows "capacities s' = capacities s"
proof (cases "items (text_queue s)")
  case Nil
  then show ?thesis using assms by (simp add: asr_phase_empty)
next
  case (Cons utt rest)
  show ?thesis
  proof (cases "conversation_mode s")
    case True
    then show ?thesis
      using assms Cons by (auto simp: asr_phase_conversation capacities_def split: prod.splits)
  next
    case False
    obtain out evc where v: "voice_command utt (s\<lparr>text_queue := (text_queue s)\<lparr>items := rest\<rparr>\<rparr>) = (out, evc)"
      by (metis surj_pair)
    then have "out = Continue s'" using assms Cons False by (simp add: asr_phase_command)
    then have "capacities s' = capacities (s\<lparr>text_queue := (text_queue s)\<lparr>items := rest\<rparr>\<rparr>)"
      using v capacities_voice_command by blast
    then show ?thesis by (simp add: capacities_def)
  qed
qed

lemma capacities_loop_body:
  assumes "loop_body inp s = (Continue s', ev)"
  shows "capacities s' = capacities s"
proof -
  obtain out e where bt: "before_timeout inp s = (out, e)" by (metis surj_pair)
  then obtain s5 where out: "out = Continue s5"
    using assms by (cases out) (simp_all add: loop_body_def)
  have s': "s' = fst (timeout_phase (time_check inp) s5)"
    using assms bt out by (auto simp: loop_body_def split: prod.splits)
  obtain fr where fr: "read_frame inp = Some fr"
    using bt out by (cases "read_frame inp") (simp_all add: before_timeout_def)
  define s2 where "s2 = the (poll_results (fst (the (submit_frame fr (s\<lparr>frame_count := frame_count s + 1\<rparr>)))))"
  define s3 where "s3 = fst (guard_phase (time_guard inp) s2)"
  have c2: "capacities s2 = capacities s"
    by (simp add: s2_def capacities_def submit_frame_eq poll_results_eq)
  have c3: "capacities s3 = capacities s" by (simp add: s3_def capacities_guard c2)
  obtain s1 e1 where s1: "the (submit_frame fr (s\<lparr>frame_count := frame_count s + 1\<rparr>)) = (s1, e1)"
    by (metis surj_pair)
  obtain e3 where g: "guard_phase (time_guard inp) (the (poll_results s1)) = (s3, e3)"
    using s1 by (simp add: s3_def s2_def) (metis prod.collapse)
  obtain q e4 where d4: "display_phase (key inp) s3 = (q, e4)" by (metis surj_pair)
  obtain o5 e5 where a: "asr_phase inp s3 = (o5, e5)" by (metis surj_pair)
  have "o5 = Continue s5"
    using bt out by (simp add: before_timeout_frame[OF fr] s1 g d4 a split: if_splits)
  then have "capacities s5 = capacities s3" using a capacities_asr by blast
  then show ?thesis by (simp add: s' capacities_timeout c3)
qed

lemma reachable_capacities: "reachable s \<Longrightarrow> capacities s"
proof (induction rule: reachable.induct)
  case (start loaded)
  show ?case by (simp add: capacities_def initial_state_def Queue_def)
next
  case (others s fs rs ts)
  then show ?case by (simp add: capacities_def)
next
  case (iteration s inp s' ev)
  then show ?case using capacities_loop_body by blast
qed

section \<open>The claims\<close>

text \<open>
  C6. A captured frame is put on the frame queue if and only if the frame counter, which
  line 112 has just incremented, is a multiple of 3 and the frame queue is not full. In
  every other iteration no frame is submitted, and the queue keeps its contents.
\<close>

theorem frame_submission:
  "(SubmitFrame f \<in> set (snd (loop_body inp s)) \<longleftrightarrow>
      read_frame inp = Some f \<and> (frame_count s + 1) mod 3 = 0 \<and> \<not> q_full (frame_queue s))
   \<and> (\<exists>s1 ev. submit_frame f (s\<lparr>frame_count := frame_count s + 1\<rparr>) = Some (s1, ev)
        \<and> items (frame_queue s1) =
            (if (frame_count s + 1) mod 3 = 0 \<and> \<not> q_full (frame_queue s)
             then items (frame_queue s) @ [Some f] else items (frame_queue s)))"
proof
  have "SubmitFrame f \<in> set (snd (loop_body inp s)) \<longleftrightarrow>
        SubmitFrame f \<in> set (snd (before_timeout inp s))"
    using timeout_phase_no_submit
    by (auto simp: loop_body_def split: prod.splits outcome.splits) (metis snd_conv)+
  then show "SubmitFrame f \<in> set (snd (loop_body inp s)) \<longleftrightarrow>
      read_frame inp = Some f \<and> (frame_count s + 1) mod 3 = 0 \<and> \<not> q_full (frame_queue s)"
    by (simp add: before_timeout_submit)
  show "\<exists>s1 ev. submit_frame f (s\<lparr>frame_count := frame_count s + 1\<rparr>) = Some (s1, ev)
        \<and> items (frame_queue s1) =
            (if (frame_count s + 1) mod 3 = 0 \<and> \<not> q_full (frame_queue s)
             then items (frame_queue s) @ [Some f] else items (frame_queue s))"
    by (simp add: submit_frame_eq)
qed

theorem frame_submission_witness:
  "SubmitFrame 7 \<in> set (snd (loop_body quiet ((initial_state False)\<lparr>frame_count := 2\<rparr>)))
   \<and> SubmitFrame 7 \<notin> set (snd (loop_body quiet (initial_state False)))"
  using frame_submission[of 7 quiet "(initial_state False)\<lparr>frame_count := 2\<rparr>"]
    frame_submission[of 7 quiet "initial_state False"]
  by (simp add: quiet_def initial_state_def Queue_def q_full_def qsize_def)

text \<open>
  C8. An iteration of the main loop never waits in a queue call: whatever the queues
  hold, its outcome is not \<open>Blocks\<close>. The results are read only when the result queue is
  not empty, and \<open>get_text\<close> never raises and returns \<open>None\<close> on an empty queue.
\<close>

theorem main_loop_never_blocks:
  "fst (loop_body inp s) \<noteq> Blocks
   \<and> (\<forall>e. get_text q \<noteq> Inl e)
   \<and> (q_empty q \<longrightarrow> get_text q = Inr (None, q))
   \<and> (q_empty (result_queue s) \<longrightarrow> poll_results s = Some s)
   \<and> (\<not> has_text (text_queue s) \<longrightarrow> asr_phase inp s = (Continue s, []))"
  using loop_body_outcome[of inp s]
  by (auto simp: get_text_eq q_empty_def poll_results_eq has_text_def asr_phase_empty)

theorem main_loop_never_blocks_witness:
  "fst (loop_body quiet (initial_state False)) \<noteq> Blocks
   \<and> get_text (Queue 0) = Inr (None, Queue 0)
   \<and> poll_results (initial_state False) = Some (initial_state False)
   \<and> asr_phase quiet (initial_state False) = (Continue (initial_state False), [])"
  using main_loop_never_blocks[of quiet "initial_state False" "Queue 0"]
  by (simp add: initial_state_def Queue_def q_empty_def has_text_def)

text \<open>
  C1, as the code has it. The challenge depends on three guards. When guard mode is on,
  the recognition results hold a face named "Unknown" and more than 10 seconds have
  passed since the last alert, the iteration prints the alert; and when no conversation
  is running, it also starts one with \<open>start_conversation\<close>, sets the timeout to 60
  seconds from now and passes the opening message to \<open>text_to_speech_async\<close>. While a
  conversation is running only the alert is printed. With guard mode off, or within 10
  seconds of the last alert, an unknown face triggers nothing.
\<close>

theorem unknown_face_challenge:
  "(guard_mode s \<and> (\<exists>f\<in>set (recognized_faces s). snd f = ''Unknown'')
      \<and> t - last_unknown_alert_time s > 10
    \<longrightarrow> (\<exists>s' ev. guard_phase t s = (s', ev)
          \<and> last_unknown_alert_time s' = t
          \<and> (if conversation_mode s
              then ev = [Print AlertBanner, Print AlertUnknownPerson, Print AlertBanner]
                \<and> conversation_manager s' = conversation_manager s
                \<and> conversation_mode s' \<and> conversation_timeout s' = conversation_timeout s
              else ev = [Print AlertBanner, Print AlertUnknownPerson, Print AlertBanner,
                         Print StartingConversation]
                        @ snd (snd (start_conversation (conversation_manager s)))
                        @ [Speak (fst (start_conversation (conversation_manager s)))]
                \<and> fst (start_conversation (conversation_manager s)) = opening_message
                \<and> conversation_manager s' = fst (snd (start_conversation (conversation_manager s)))
                \<and> conversation_active (conversation_manager s')
                \<and> conversation_mode s' \<and> conversation_timeout s' = t + 60)))
   \<and> (\<not> (guard_mode s \<and> (\<exists>f\<in>set (recognized_faces s). snd f = ''Unknown'')
           \<and> t - last_unknown_alert_time s > 10)
      \<longrightarrow> guard_phase t s = (s, []))
   \<and> (read_frame inp = Some fr \<and> guard_mode s
        \<and> (\<exists>f\<in>set (if q_empty (result_queue s) then recognized_faces s
                       else hd (items (result_queue s))). snd f = ''Unknown'')
        \<and> time_guard inp - last_unknown_alert_time s > 10
      \<longrightarrow> Print AlertUnknownPerson \<in> set (snd (loop_body inp s))
          \<and> (\<not> conversation_mode s \<longrightarrow>
                Print LLMStarted \<in> set (snd (loop_body inp s))
                \<and> Speak opening_message \<in> set (snd (loop_body inp s))))"
proof (intro conjI impI)
  assume a: "read_frame inp = Some fr \<and> guard_mode s
        \<and> (\<exists>f\<in>set (if q_empty (result_queue s) then recognized_faces s
                       else hd (items (result_queue s))). snd f = ''Unknown'')
        \<and> time_guard inp - last_unknown_alert_time s > 10"
  define s2 where "s2 = the (poll_results (fst (the (submit_frame fr (s\<lparr>frame_count := frame_count s + 1\<rparr>)))))"
  have sub: "set (snd (guard_phase (time_guard inp) s2)) \<subseteq> set (snd (loop_body inp s))"
    using a loop_events_guard[OF _ s2_def] by simp
  have g: "guard_phase (time_guard inp) s2 = raise_alert (time_guard inp) s2"
    using a state_before_guard[OF s2_def] by (simp add: guard_phase_eq)
  have "Print AlertUnknownPerson \<in> set (snd (guard_phase (time_guard inp) s2))"
    by (simp add: g raise_alert_def)
  then show "Print AlertUnknownPerson \<in> set (snd (loop_body inp s))" using sub by blast
  {
    assume "\<not> conversation_mode s"
    then have "Print LLMStarted \<in> set (snd (guard_phase (time_guard inp) s2))"
      and "Speak opening_message \<in> set (snd (guard_phase (time_guard inp) s2))"
      using state_before_guard(2)[OF s2_def] by (simp_all add: g raise_alert_def)
    then show "Print LLMStarted \<in> set (snd (loop_body inp s))"
      and "Speak opening_message \<in> set (snd (loop_body inp s))" using sub by blast+
  }
qed (simp_all add: guard_phase_eq raise_alert_def start_conversation_def)

theorem unknown_face_challenge_witness:
  "snd (guard_phase 100 (guarding\<lparr>recognized_faces := [unknown_face]\<rparr>))
     = [Print AlertBanner, Print AlertUnknownPerson, Print AlertBanner,
        Print StartingConversation, Print LLMStarted, Speak opening_message]
   \<and> guard_phase 100 (initial_state False) = (initial_state False, [])
   \<and> Speak opening_message \<in> set (snd (loop_body quiet guarding))"
  using unknown_face_challenge[of "guarding\<lparr>recognized_faces := [unknown_face]\<rparr>" 100 quiet 7]
    unknown_face_challenge[of "initial_state False" 100 quiet 7]
    unknown_face_challenge[of guarding 100 quiet 7]
  by (auto simp: guarding_def unknown_face_def quiet_def initial_state_def new_manager_def
      start_conversation_def q_empty_def)

text \<open>
  C1 as stated fails. Each of these iterations reads a recognition result with an
  unknown face from the result queue: with guard mode off nothing is printed or spoken;
  with guard mode on and an alert 5 seconds ago, nothing either; with a conversation
  running, the alert is printed and no conversation is started, nothing is spoken.
\<close>

theorem unknown_face_challenge_counterexample:
  "snd (loop_body quiet
        ((initial_state False)\<lparr>result_queue := \<lparr>maxsize = 1, items = [[unknown_face]]\<rparr>\<rparr>))
    = [DestroyWindow, Sleep 0.1]
   \<and> snd (loop_body quiet
        ((initial_state False)\<lparr>result_queue := \<lparr>maxsize = 1, items = [[unknown_face]]\<rparr>,
           guard_mode := True, last_unknown_alert_time := 95\<rparr>))
    = [ShowVideo]
   \<and> snd (loop_body quiet
        ((initial_state False)\<lparr>result_queue := \<lparr>maxsize = 1, items = [[unknown_face]]\<rparr>,
           guard_mode := True, conversation_mode := True, conversation_timeout := 130,
           conversation_manager := fst (snd (start_conversation (new_manager False))),
           last_unknown_alert_time := 70\<rparr>))
    = [Print AlertBanner, Print AlertUnknownPerson, Print AlertBanner, ShowVideo]"
  by (simp add: loop_body_def before_timeout_def quiet_def initial_state_def Queue_def
      submit_frame_eq poll_results_eq q_empty_def guard_phase_eq display_phase_def
      asr_phase_empty timeout_phase_def new_manager_def unknown_face_def raise_alert_def
      start_conversation_def)

text \<open>
  C3. While \<open>conversation_mode\<close> is set, the utterance taken from the listener goes to
  \<open>process_intruder_response\<close>, the reply is passed to \<open>text_to_speech_async\<close>, and the
  timeout becomes the current time plus 60 seconds. No voice command is processed: the
  loop goes on whatever the words are, \<open>guard_mode\<close> and \<open>conversation_mode\<close> stay as
  they are, and none of the command messages is printed. The last part is the same for
  the whole iteration, when a frame was read and the quit key was not pressed.
\<close>

theorem conversation_utterance:
  assumes "conversation_mode s" and "items (text_queue s) = utt # rest"
  shows "\<exists>reply m evm s'.
      process_intruder_response (generate inp) (conversation_manager s) utt = (reply, m, evm)
    \<and> asr_phase inp s =
        (Continue s',
         [Print (VoiceCommand utt), Print (IntruderSaid utt)] @ evm
           @ [Print (SecurityAI reply), Speak reply])
    \<and> conversation_manager s' = m
    \<and> conversation_timeout s' = time_reset inp + 60
    \<and> items (text_queue s') = rest
    \<and> conversation_mode s' \<and> guard_mode s' = guard_mode s
    \<and> Print GuardActivated \<notin> set (snd (asr_phase inp s))
    \<and> Print GuardDeactivated \<notin> set (snd (asr_phase inp s))
    \<and> Print QuitReceived \<notin> set (snd (asr_phase inp s))
    \<and> (read_frame inp = Some fr \<and> \<not> (guard_mode s \<and> key inp AND 255 = 113) \<longrightarrow>
          (\<exists>s''. fst (loop_body inp s) = Continue s''
             \<and> conversation_timeout s'' = time_reset inp + 60 \<and> guard_mode s'' = guard_mode s)
          \<and> Speak reply \<in> set (snd (loop_body inp s)))"
proof -
  obtain reply m evm where
    p: "process_intruder_response (generate inp) (conversation_manager s) utt = (reply, m, evm)"
    by (metis prod_cases3)
  have "list_all llm_line evm"
    using process_events_llm[of "generate inp" "conversation_manager s" utt] p by simp
  then have "Print GuardActivated \<notin> set evm \<and> Print GuardDeactivated \<notin> set evm
     \<and> Print QuitReceived \<notin> set evm"
    by (rule llm_line_not_command)
  moreover have "read_frame inp = Some fr \<and> \<not> (guard_mode s \<and> key inp AND 255 = 113) \<longrightarrow>
          (\<exists>s''. fst (loop_body inp s) = Continue s''
             \<and> conversation_timeout s'' = time_reset inp + 60 \<and> guard_mode s'' = guard_mode s)
          \<and> Speak reply \<in> set (snd (loop_body inp s))"
    using loop_body_conversation[OF _ _ assms, of inp fr] p by auto
  ultimately show ?thesis
    using assms p by (simp add: asr_phase_conversation)
qed

theorem conversation_utterance_witness:
  "Speak ''I need you to identify yourself. Who are you?'' \<in> set (snd (asr_phase quiet conversing))
   \<and> Print QuitReceived \<notin> set (snd (asr_phase quiet conversing))
   \<and> Speak ''I need you to identify yourself. Who are you?'' \<in> set (snd (loop_body quiet conversing))"
proof -
  have r: "process_intruder_response (generate quiet) (conversation_manager conversing) ''quit''
      = (''I need you to identify yourself. Who are you?'',
         \<lparr>conversation_active = True,
            conversation_history =
              [(Assistant, opening_message), (Intruder, ''quit''),
               (Assistant, ''I need you to identify yourself. Who are you?'')],
            generator_loaded = False\<rparr>,
         [Print (LLMProcessing ''quit''),
          Print (LLMGenerated ''I need you to identify yourself. Who are you?'')])"
    by (simp add: conversing_def guarding_def new_manager_def start_conversation_def
        process_intruder_response_def generate_response_def get_fallback_response_def
        default_responses_def any_in_def lower_def lower_char_def)
  have c: "conversation_mode conversing" "items (text_queue conversing) = [''quit'']"
    "read_frame quiet = Some 7" "key quiet AND 255 \<noteq> 113"
    by (simp_all add: conversing_def guarding_def quiet_def)
  show ?thesis
    using conversation_utterance[OF c(1,2), of quiet 7] c(3,4) by (auto simp: r)
qed

text \<open>
  C5. An utterance processed as a voice command (\<open>conversation_mode\<close> is off) whose
  lowercased text contains "guard" and "room" sets \<open>guard_mode\<close>, also when it contains
  "stop". The deactivation branch runs exactly for the utterances that contain "stop"
  and "guard" and not "room"; it clears both flags and leaves no conversation active.
\<close>

theorem voice_commands:
  assumes "\<not> conversation_mode s" and "items (text_queue s) = utt # rest"
  shows "(contains ''guard'' (lower utt) \<and> contains ''room'' (lower utt) \<longrightarrow>
            (\<exists>s'. fst (asr_phase inp s) = Continue s' \<and> guard_mode s'
               \<and> conversation_manager s' = conversation_manager s
               \<and> conversation_mode s' = conversation_mode s))
       \<and> (Print GuardDeactivated \<in> set (snd (asr_phase inp s)) \<longleftrightarrow>
            contains ''stop'' (lower utt) \<and> contains ''guard'' (lower utt)
            \<and> \<not> contains ''room'' (lower utt))
       \<and> (contains ''stop'' (lower utt) \<and> contains ''guard'' (lower utt)
            \<and> \<not> contains ''room'' (lower utt) \<longrightarrow>
            (\<exists>s'. fst (asr_phase inp s) = Continue s' \<and> \<not> guard_mode s'
               \<and> \<not> conversation_mode s'
               \<and> \<not> is_conversation_active (conversation_manager s')))
       \<and> (\<not> (contains ''stop'' (lower utt) \<and> contains ''guard'' (lower utt)
              \<and> \<not> contains ''room'' (lower utt)) \<longrightarrow>
            (\<forall>s'. fst (asr_phase inp s) = Continue s' \<longrightarrow>
               conversation_manager s' = conversation_manager s
               \<and> (guard_mode s \<longrightarrow> guard_mode s')))"
  using assms
  by (auto simp: asr_phase_command voice_command_def Let_def end_conversation_def
      is_conversation_active_def split: prod.splits if_splits)

theorem voice_commands_witness:
  "(\<exists>s'. fst (asr_phase quiet
            ((initial_state False)\<lparr>text_queue := \<lparr>maxsize = 0, items = [''Stop guarding my room'']\<rparr>\<rparr>))
          = Continue s' \<and> guard_mode s')
   \<and> Print GuardDeactivated \<notin> set (snd (asr_phase quiet
            ((initial_state False)\<lparr>text_queue := \<lparr>maxsize = 0, items = [''Stop guarding my room'']\<rparr>\<rparr>)))
   \<and> Print GuardDeactivated \<in> set (snd (asr_phase quiet
            ((initial_state False)\<lparr>text_queue := \<lparr>maxsize = 0, items = [''Stop guard'']\<rparr>\<rparr>)))"
proof -
  have l: "lower ''Stop guarding my room'' = ''stop guarding my room''"
    "lower ''Stop guard'' = ''stop guard''"
    by (simp_all add: lower_def lower_char_def)
  show ?thesis
    using voice_commands[of "(initial_state False)\<lparr>text_queue := \<lparr>maxsize = 0, items = [''Stop guarding my room'']\<rparr>\<rparr>"
        "''Stop guarding my room''" "[]" quiet]
      voice_commands[of "(initial_state False)\<lparr>text_queue := \<lparr>maxsize = 0, items = [''Stop guard'']\<rparr>\<rparr>"
        "''Stop guard''" "[]" quiet]
    by (auto simp: l initial_state_def)
qed

text \<open>
  C4. In every state the loop can reach: when an iteration arrives at the check of line
  206 with \<open>conversation_mode\<close> set and the clock past the timeout, it clears
  \<open>conversation_mode\<close>, prints the summary of the conversation, calls
  \<open>end_conversation\<close> and passes the final warning to \<open>text_to_speech_async\<close>. The
  timeout is the time of the alert plus 60 seconds when the conversation starts, and the
  time of line 181 plus 60 seconds after each utterance of the intruder; when the check
  fails, nothing happens.
\<close>

theorem conversation_timeout_ends:
  assumes "reachable s" and "before_timeout inp s = (Continue s5, ev)"
    and "conversation_mode s5" and "time_check inp > conversation_timeout s5"
  shows "(\<exists>s6. loop_body inp s =
        (Continue s6,
         ev @ [Print ConversationTimeout,
               Print (Text (get_conversation_summary (conversation_manager s5)))]
            @ snd (end_conversation (conversation_manager s5))
            @ [Speak final_warning])
      \<and> \<not> conversation_mode s6
      \<and> conversation_manager s6 = fst (end_conversation (conversation_manager s5))
      \<and> \<not> is_conversation_active (conversation_manager s6))
    \<and> (guard_mode sa \<and> \<not> conversation_mode sa
          \<and> (\<exists>f\<in>set (recognized_faces sa). snd f = ''Unknown'')
          \<and> t - last_unknown_alert_time sa > 10 \<longrightarrow>
         conversation_mode (fst (guard_phase t sa))
         \<and> conversation_timeout (fst (guard_phase t sa)) = t + 60)
    \<and> (conversation_mode sb \<and> items (text_queue sb) = utt # rest \<longrightarrow>
         (\<exists>s'. fst (asr_phase inp sb) = Continue s' \<and> conversation_mode s'
            \<and> conversation_timeout s' = time_reset inp + 60))
    \<and> (\<not> (conversation_mode sc \<and> now > conversation_timeout sc) \<longrightarrow>
         timeout_phase now sc = (sc, []))"
proof -
  have "in_step s5"
    using reachable_in_step[OF assms(1)] assms(2) by (rule in_step_before_timeout)
  then have "is_conversation_active (conversation_manager s5)"
    using assms(3) by (simp add: in_step_def is_conversation_active_def)
  then have ends: "\<exists>s6. loop_body inp s =
        (Continue s6,
         ev @ [Print ConversationTimeout,
               Print (Text (get_conversation_summary (conversation_manager s5)))]
            @ snd (end_conversation (conversation_manager s5))
            @ [Speak final_warning])
      \<and> \<not> conversation_mode s6
      \<and> conversation_manager s6 = fst (end_conversation (conversation_manager s5))
      \<and> \<not> is_conversation_active (conversation_manager s6)"
    using assms(2,3,4)
    by (simp add: loop_body_def timeout_phase_def Let_def end_conversation_def
        is_conversation_active_def split: prod.splits)
  have starts: "guard_mode sa \<and> \<not> conversation_mode sa
          \<and> (\<exists>f\<in>set (recognized_faces sa). snd f = ''Unknown'')
          \<and> t - last_unknown_alert_time sa > 10 \<longrightarrow>
         conversation_mode (fst (guard_phase t sa))
         \<and> conversation_timeout (fst (guard_phase t sa)) = t + 60"
    by (simp add: guard_phase_eq raise_alert_def)
  have resets: "conversation_mode sb \<and> items (text_queue sb) = utt # rest \<longrightarrow>
         (\<exists>s'. fst (asr_phase inp sb) = Continue s' \<and> conversation_mode s'
            \<and> conversation_timeout s' = time_reset inp + 60)"
    by (auto simp: asr_phase_conversation split: prod.splits)
  have idle: "\<not> (conversation_mode sc \<and> now > conversation_timeout sc) \<longrightarrow>
         timeout_phase now sc = (sc, [])"
    by (auto simp: timeout_phase_def)
  from ends starts resets idle show ?thesis by (intro conjI)
qed

theorem conversation_timeout_ends_witness:
  "reachable guarding
   \<and> snd (loop_body late guarding) =
      [Print AlertBanner, Print AlertUnknownPerson, Print AlertBanner,
       Print StartingConversation, Print LLMStarted, Speak opening_message, ShowVideo,
       Print ConversationTimeout,
       Print (Text (''Conversation Summary:'' @ [CHR 0x0A] @ ''1. Security AI: ''
                     @ opening_message @ [CHR 0x0A])),
       Print (LLMEnded 0), Speak final_warning]
   \<and> conversation_timeout (fst (guard_phase 100 (guarding\<lparr>recognized_faces := [unknown_face]\<rparr>)))
       = 160
   \<and> (\<exists>s'. fst (asr_phase late conversing) = Continue s' \<and> conversation_timeout s' = 160)
   \<and> timeout_phase 100 (initial_state False) = (initial_state False, [])"
proof -
  have h: "conversation_mode (guarding\<lparr>result_queue := Queue 1, recognized_faces := [unknown_face],
                  frame_count := 2, conversation_mode := True, conversation_timeout := 160,
                  conversation_manager := fst (snd (start_conversation (new_manager False))),
                  last_unknown_alert_time := 100\<rparr>)"
    "time_check late > conversation_timeout (guarding\<lparr>result_queue := Queue 1,
                  recognized_faces := [unknown_face],
                  frame_count := 2, conversation_mode := True, conversation_timeout := 160,
                  conversation_manager := fst (snd (start_conversation (new_manager False))),
                  last_unknown_alert_time := 100\<rparr>)"
    by (simp_all add: late_def quiet_def)
  note th = conversation_timeout_ends[OF reachable_guarding before_timeout_late h,
      where sa = "guarding\<lparr>recognized_faces := [unknown_face]\<rparr>" and t = 100
        and sb = conversing and utt = "''quit''" and rest = "[]"
        and sc = "initial_state False" and now = 100]
  note ends = th[THEN conjunct1]
    and starts = th[THEN conjunct2, THEN conjunct1]
    and resets = th[THEN conjunct2, THEN conjunct2, THEN conjunct1]
    and idle = th[THEN conjunct2, THEN conjunct2, THEN conjunct2]
  have "snd (loop_body late guarding) =
      [Print AlertBanner, Print AlertUnknownPerson, Print AlertBanner,
       Print StartingConversation, Print LLMStarted, Speak opening_message, ShowVideo,
       Print ConversationTimeout,
       Print (Text (''Conversation Summary:'' @ [CHR 0x0A] @ ''1. Security AI: ''
                     @ opening_message @ [CHR 0x0A])),
       Print (LLMEnded 0), Speak final_warning]"
    using ends
    by (auto simp: summary_ex end_conversation_def start_conversation_def new_manager_def)
  moreover have "conversation_timeout
      (fst (guard_phase 100 (guarding\<lparr>recognized_faces := [unknown_face]\<rparr>))) = 160"
    using starts by (simp add: guarding_def unknown_face_def)
  moreover have "\<exists>s'. fst (asr_phase late conversing) = Continue s' \<and> conversation_timeout s' = 160"
    using resets by (auto simp: late_def quiet_def conversing_def guarding_def)
  moreover have "timeout_phase 100 (initial_state False) = (initial_state False, [])"
    using idle by (simp add: initial_state_def)
  ultimately show ?thesis using reachable_guarding by (intro conjI)
qed

text \<open>
  C10, as the code has it. When loading and encoding raise nothing but
  \<open>FileNotFoundError\<close>, \<open>recognize_face\<close> returns \<open>None\<close>, "Unknown" or a key of
  \<open>known_faces\<close>: \<open>None\<close> exactly when the file is not found or no face encoding is
  found; otherwise the name of the first person, in the order of the map, one of whose
  encodings the first detected face matches; "Unknown" when it matches nobody's. Any
  other exception of the library leaves the function.
\<close>

theorem recognize_face_result:
  "((\<forall>e. img = Inl e \<longrightarrow> e = FileNotFoundError) \<longrightarrow>
      (\<exists>r. fst (recognize_face m img kf) = Inr r
         \<and> (r = None \<or> r = Some ''Unknown'' \<or> (\<exists>k\<in>fst ` set kf. r = Some k))
         \<and> (r = None \<longleftrightarrow> img = Inl FileNotFoundError \<or> img = Inr [])))
   \<and> (\<forall>e. img = Inl e \<and> e \<noteq> FileNotFoundError \<longrightarrow> fst (recognize_face m img kf) = Inl e)
   \<and> (\<forall>enc others name. img = Inr (enc # others) \<longrightarrow>
        (fst (recognize_face m img kf) = Inr (Some name) \<longleftrightarrow>
           (\<exists>pre encs post. kf = pre @ (name, encs) # post
              \<and> (\<exists>k\<in>set encs. m k enc) \<and> (\<forall>p\<in>set pre. \<forall>k\<in>set (snd p). \<not> m k enc))
           \<or> (name = ''Unknown'' \<and> (\<forall>p\<in>set kf. \<forall>k\<in>set (snd p). \<not> m k enc))))"
proof (intro conjI allI impI)
  assume a: "\<forall>e. img = Inl e \<longrightarrow> e = FileNotFoundError"
  show "\<exists>r. fst (recognize_face m img kf) = Inr r
         \<and> (r = None \<or> r = Some ''Unknown'' \<or> (\<exists>k\<in>fst ` set kf. r = Some k))
         \<and> (r = None \<longleftrightarrow> img = Inl FileNotFoundError \<or> img = Inr [])"
  proof (cases img)
    case (Inl e)
    then show ?thesis using a by (simp add: recognize_face_def)
  next
    case (Inr es)
    then show ?thesis
      using find_person_key[of m "hd es" kf]
      by (cases es) (auto simp: recognize_face_def)
  qed
next
  fix e assume "img = Inl e \<and> e \<noteq> FileNotFoundError"
  then show "fst (recognize_face m img kf) = Inl e"
    by (cases e) (simp_all add: recognize_face_def)
next
  fix enc others name
  assume i: "img = Inr (enc # others)"
  have r: "fst (recognize_face m img kf) = Inr (Some (find_person m enc kf))"
    using i by (simp add: recognize_face_def)
  show "fst (recognize_face m img kf) = Inr (Some name) \<longleftrightarrow>
           (\<exists>pre encs post. kf = pre @ (name, encs) # post
              \<and> (\<exists>k\<in>set encs. m k enc) \<and> (\<forall>p\<in>set pre. \<forall>k\<in>set (snd p). \<not> m k enc))
           \<or> (name = ''Unknown'' \<and> (\<forall>p\<in>set kf. \<forall>k\<in>set (snd p). \<not> m k enc))"
  proof
    assume "fst (recognize_face m img kf) = Inr (Some name)"
    then have "find_person m enc kf = name" using r by simp
    then show "(\<exists>pre encs post. kf = pre @ (name, encs) # post
              \<and> (\<exists>k\<in>set encs. m k enc) \<and> (\<forall>p\<in>set pre. \<forall>k\<in>set (snd p). \<not> m k enc))
           \<or> (name = ''Unknown'' \<and> (\<forall>p\<in>set kf. \<forall>k\<in>set (snd p). \<not> m k enc))"
      using find_person_result[of kf m enc] by auto
  next
    assume "(\<exists>pre encs post. kf = pre @ (name, encs) # post
              \<and> (\<exists>k\<in>set encs. m k enc) \<and> (\<forall>p\<in>set pre. \<forall>k\<in>set (snd p). \<not> m k enc))
           \<or> (name = ''Unknown'' \<and> (\<forall>p\<in>set kf. \<forall>k\<in>set (snd p). \<not> m k enc))"
    then have "find_person m enc kf = name"
      using find_person_first[of _ m enc] find_person_none[of kf m enc] by blast
    then show "fst (recognize_face m img kf) = Inr (Some name)" using r by simp
  qed
qed

text \<open>
  C10 as stated fails: an image file that exists and cannot be decoded makes the
  function raise, and a face that matches Bob's encoding is named Alice when it matches
  hers too and she comes first.
\<close>

theorem recognize_face_result_counterexample:
  "fst (recognize_face near (Inl (OtherError ''cannot identify image file''))
          [(''alice'', [10]), (''bob'', [14])])
     = Inl (OtherError ''cannot identify image file'')
   \<and> near 14 12
   \<and> fst (recognize_face near (Inr [12]) [(''alice'', [10]), (''bob'', [14])])
     = Inr (Some ''alice'')"
  by (simp add: recognize_face_def near_def any_def compare_faces_def)

theorem recognize_face_result_witness:
  "fst (recognize_face near (Inl FileNotFoundError) [(''alice'', [10]), (''bob'', [14])]) = Inr None
   \<and> fst (recognize_face near (Inr [20]) [(''alice'', [10]), (''bob'', [14])]) = Inr (Some ''bob'')
   \<and> fst (recognize_face near (Inr [30]) [(''alice'', [10]), (''bob'', [14])]) = Inr (Some ''Unknown'')"
  using recognize_face_result[of "Inl FileNotFoundError" near "[(''alice'', [10]), (''bob'', [14])]"]
    recognize_face_result[of "Inr [20]" near "[(''alice'', [10]), (''bob'', [14])]",
      THEN conjunct2, THEN conjunct2, rule_format, of 20 "[]" "''bob''"]
    recognize_face_result[of "Inr [30]" near "[(''alice'', [10]), (''bob'', [14])]",
      THEN conjunct2, THEN conjunct2, rule_format, of 30 "[]" "''Unknown''"]
  by (simp_all add: recognize_face_def near_def any_def compare_faces_def)

text \<open>
  C7, as the code has it. In \<open>load_known_faces\<close> an image whose loading or encoding
  raises is skipped with a printed line and the remaining images are processed: the
  encodings of a person are the first encodings of the images that gave any, so the
  function returns whenever the directory listings succeed, and its keys are exactly the
  persons with at least one encoded image. In the listener a recognition error is printed
  and the iteration ends: the service is called at most once per iteration, on the audio
  just heard, and the next iteration listens again.
\<close>

theorem failures_caught_and_printed:
  "(listings_ok entries \<longrightarrow>
      (\<exists>kf. fst (load_known_faces (Inr entries)) = Inr kf
         \<and> (\<forall>p. p \<in> fst ` set kf \<longleftrightarrow>
               (\<exists>imgs. (p, Dir (Inr imgs)) \<in> set entries
                  \<and> (\<exists>n x xs. (n, Inr (x # xs)) \<in> set imgs)))))
   \<and> fst (load_images person imgs) = concat (map (\<lambda>p. encoded (snd p)) imgs)
   \<and> snd (load_images person imgs) = concat (map (complaint person) imgs)
   \<and> (tts_speaking inp \<noteq> Some True \<and> microphone inp = None \<and> heard inp = Inr a \<longrightarrow>
        (recognized inp = Inl UnknownValueError \<longrightarrow>
           listen_iteration inp q =
             (Continue q, [APrint Listening, AListen, APrint Processing, ARecognize a,
                           APrint CouldNotUnderstand]))
        \<and> (\<forall>x. recognized inp = Inl (RequestError x) \<longrightarrow>
           listen_iteration inp q =
             (Continue q, [APrint Listening, AListen, APrint Processing, ARecognize a,
                           APrint (CouldNotRequest x)]))
        \<and> (\<forall>e. recognized inp = Inl e \<and> e \<noteq> UnknownValueError
                \<and> (\<forall>x. e \<noteq> RequestError x) \<and> e \<noteq> WaitTimeoutError \<longrightarrow>
           listen_iteration inp q =
             (Continue q, [APrint Listening, AListen, APrint Processing, ARecognize a,
                           APrint (LoopError e), ASleep 1])))
   \<and> length (filter is_recognize (snd (listen_iteration inp q))) \<le> 1
   \<and> (\<forall>a'. ARecognize a' \<in> set (snd (listen_iteration inp q)) \<longrightarrow> heard inp = Inr a')
   \<and> (\<forall>q'. still_listening inp \<and> fst (listen_iteration inp q) = Continue q' \<longrightarrow>
        listen_worker (inp # rest) q =
          (fst (listen_worker rest q'),
           snd (listen_iteration inp q) @ snd (listen_worker rest q')))"
proof (intro conjI)
  show "listings_ok entries \<longrightarrow>
      (\<exists>kf. fst (load_known_faces (Inr entries)) = Inr kf
         \<and> (\<forall>p. p \<in> fst ` set kf \<longleftrightarrow>
               (\<exists>imgs. (p, Dir (Inr imgs)) \<in> set entries
                  \<and> (\<exists>n x xs. (n, Inr (x # xs)) \<in> set imgs))))"
  proof
    assume "listings_ok entries"
    from load_persons_keys[OF this, of "[]" "[]"]
    obtain kf where kf: "fst (load_persons entries [] []) = Inr kf"
      "fst ` set kf = {p. \<exists>imgs. (p, Dir (Inr imgs)) \<in> set entries \<and> fst (load_images p imgs) \<noteq> []}"
      by auto
    have "\<forall>p. p \<in> fst ` set kf \<longleftrightarrow>
               (\<exists>imgs. (p, Dir (Inr imgs)) \<in> set entries
                  \<and> (\<exists>n x xs. (n, Inr (x # xs)) \<in> set imgs))"
      by (simp only: kf(2) load_images_encodings encoded_some mem_Collect_eq) simp
    then show "\<exists>kf. fst (load_known_faces (Inr entries)) = Inr kf
         \<and> (\<forall>p. p \<in> fst ` set kf \<longleftrightarrow>
               (\<exists>imgs. (p, Dir (Inr imgs)) \<in> set entries
                  \<and> (\<exists>n x xs. (n, Inr (x # xs)) \<in> set imgs)))"
      using kf(1) by (simp add: load_known_faces_def)
  qed
  show "fst (load_images person imgs) = concat (map (\<lambda>p. encoded (snd p)) imgs)"
    by (rule load_images_encodings)
  show "snd (load_images person imgs) = concat (map (complaint person) imgs)"
    by (rule load_images_messages)
  show "tts_speaking inp \<noteq> Some True \<and> microphone inp = None \<and> heard inp = Inr a \<longrightarrow>
        (recognized inp = Inl UnknownValueError \<longrightarrow>
           listen_iteration inp q =
             (Continue q, [APrint Listening, AListen, APrint Processing, ARecognize a,
                           APrint CouldNotUnderstand]))
        \<and> (\<forall>x. recognized inp = Inl (RequestError x) \<longrightarrow>
           listen_iteration inp q =
             (Continue q, [APrint Listening, AListen, APrint Processing, ARecognize a,
                           APrint (CouldNotRequest x)]))
        \<and> (\<forall>e. recognized inp = Inl e \<and> e \<noteq> UnknownValueError
                \<and> (\<forall>x. e \<noteq> RequestError x) \<and> e \<noteq> WaitTimeoutError \<longrightarrow>
           listen_iteration inp q =
             (Continue q, [APrint Listening, AListen, APrint Processing, ARecognize a,
                           APrint (LoopError e), ASleep 1]))"
    by (auto simp: listen_iteration_def outer_handler_def Let_def split: py_exn.splits)
  show "length (filter is_recognize (snd (listen_iteration inp q))) \<le> 1"
    by (auto simp: listen_iteration_def outer_handler_def is_recognize_def Let_def
        split: option.splits sum.splits py_exn.splits)
  show "\<forall>a'. ARecognize a' \<in> set (snd (listen_iteration inp q)) \<longrightarrow> heard inp = Inr a'"
    by (auto simp: listen_iteration_def outer_handler_def Let_def
        split: option.splits sum.splits py_exn.splits if_splits)
  show "\<forall>q'. still_listening inp \<and> fst (listen_iteration inp q) = Continue q' \<longrightarrow>
        listen_worker (inp # rest) q =
          (fst (listen_worker rest q'),
           snd (listen_iteration inp q) @ snd (listen_worker rest q'))"
    by (auto split: prod.splits outcome.splits)
qed

text \<open>
  C7 as stated fails for "every failure of an external call": a directory listing that
  raises leaves \<open>load_known_faces\<close> with nothing printed, and a listening timeout is
  caught without a message.
\<close>

theorem failures_caught_and_printed_counterexample:
  "load_known_faces (Inl FileNotFoundError :: py_exn + (string \<times> int entry) list)
     = (Inl FileNotFoundError, [])
   \<and> load_known_faces (Inr [(''alice'', Dir (Inl (OtherError ''PermissionError'')))
                         :: string \<times> int entry])
     = (Inl (OtherError ''PermissionError''), [])
   \<and> listen_iteration silence (Queue 0) = (Continue (Queue 0), [APrint Listening, AListen])"
  by (simp add: load_known_faces_def listen_iteration_def silence_def outer_handler_def)

theorem failures_caught_and_printed_witness:
  "listings_ok dataset
   \<and> load_known_faces (Inr dataset)
       = (Inr [(''alice'', [10])],
          [ErrorProcessingImage ''alice'' ''a1.jpg'' (OtherError ''truncated''),
           ErrorProcessingImage ''bob'' ''b1.jpg'' (OtherError ''truncated'')])
   \<and> (\<exists>kf. fst (load_known_faces (Inr dataset)) = Inr kf \<and> ''bob'' \<notin> fst ` set kf)
   \<and> listen_iteration (hears (Inl UnknownValueError)) (Queue 0)
       = (Continue (Queue 0),
          [APrint Listening, AListen, APrint Processing, ARecognize 1, APrint CouldNotUnderstand])
   \<and> listen_worker [hears (Inl (RequestError ''offline'')), hears (Inr ''hello'')] (Queue 0)
       = (Continue \<lparr>maxsize = 0, items = [''hello'']\<rparr>,
          [APrint Listening, AListen, APrint Processing, ARecognize 1,
           APrint (CouldNotRequest ''offline''),
           APrint Listening, AListen, APrint Processing, ARecognize 1,
           APrint (Recognized ''hello'')])"
proof -
  have ok: "listings_ok dataset" by (simp add: listings_ok_def dataset_def)
  note th = failures_caught_and_printed[where entries = dataset
      and inp = "hears (Inl UnknownValueError)" and a = 1 and q = "Queue 0"]
  from th[THEN conjunct1] ok
  obtain kf where kf: "fst (load_known_faces (Inr dataset)) = Inr kf"
    "\<forall>p. p \<in> fst ` set kf \<longleftrightarrow>
       (\<exists>imgs. (p, Dir (Inr imgs)) \<in> set dataset \<and> (\<exists>n x xs. (n, Inr (x # xs)) \<in> set imgs))"
    by blast
  have "''bob'' \<notin> fst ` set kf"
    unfolding kf(2)[rule_format] by (auto simp: dataset_def)
  then have b: "\<exists>kf. fst (load_known_faces (Inr dataset)) = Inr kf \<and> ''bob'' \<notin> fst ` set kf"
    using kf(1) by blast
  have l: "load_known_faces (Inr dataset)
       = (Inr [(''alice'', [10])],
          [ErrorProcessingImage ''alice'' ''a1.jpg'' (OtherError ''truncated''),
           ErrorProcessingImage ''bob'' ''b1.jpg'' (OtherError ''truncated'')])"
    by (simp add: load_known_faces_def dataset_def)
  have i: "listen_iteration (hears (Inl UnknownValueError)) (Queue 0)
       = (Continue (Queue 0),
          [APrint Listening, AListen, APrint Processing, ARecognize 1, APrint CouldNotUnderstand])"
    using th[THEN conjunct2, THEN conjunct2, THEN conjunct2, THEN conjunct1]
    by (simp add: hears_def)
  have w: "listen_worker [hears (Inl (RequestError ''offline'')), hears (Inr ''hello'')] (Queue 0)
       = (Continue \<lparr>maxsize = 0, items = [''hello'']\<rparr>,
          [APrint Listening, AListen, APrint Processing, ARecognize 1,
           APrint (CouldNotRequest ''offline''),
           APrint Listening, AListen, APrint Processing, ARecognize 1,
           APrint (Recognized ''hello'')])"
    by (simp add: hears_def listen_iteration_def Queue_def q_put_def q_full_def)
  show ?thesis using ok l b i w by (intro conjI)
qed

text \<open>
  C9. \<open>text_to_speech\<close> sets \<open>is_speaking\<close> before anything else it does outside. It
  returns \<open>False\<close> exactly when one of its external calls raises, and then \<open>is_speaking\<close>
  is still set: \<open>is_tts_speaking\<close> answers \<open>True\<close>, and as long as it does every
  iteration of the listener only pauses and never listens.
\<close>

theorem failed_speech_keeps_flag:
  "(\<exists>rest. snd (snd (text_to_speech inp txt blocking flag))
             = [Synthesizing txt, SetSpeaking True] @ rest)
   \<and> (fst (text_to_speech inp txt blocking flag) = Returned False \<longleftrightarrow>
        (\<exists>e. tempfile inp = Inl e) \<or> synthesis inp \<noteq> None \<or> load inp \<noteq> None \<or> play inp \<noteq> None
        \<or> (blocking \<and> (\<exists>n e. polling inp = BusyRaises n e)))
   \<and> (fst (text_to_speech inp txt blocking flag) = Returned False \<longrightarrow>
        is_tts_speaking (fst (snd (text_to_speech inp txt blocking flag))))
   \<and> (fst (text_to_speech inp txt blocking flag) = Returned False
        \<and> (\<forall>i\<in>set inps. still_listening i
              \<and> tts_speaking i
                  = Some (is_tts_speaking (fst (snd (text_to_speech inp txt blocking flag))))) \<longrightarrow>
        listen_worker inps q
          = (Continue q, concat (map (\<lambda>i. [APrint Pausing, ASleep 0.5]) inps))
        \<and> AListen \<notin> set (snd (listen_worker inps q)))"
proof (intro conjI)
  show "\<exists>rest. snd (snd (text_to_speech inp txt blocking flag))
             = [Synthesizing txt, SetSpeaking True] @ rest"
    by (auto simp: text_to_speech_def Let_def split: sum.splits option.splits busy.splits)
  show "fst (text_to_speech inp txt blocking flag) = Returned False \<longleftrightarrow>
        (\<exists>e. tempfile inp = Inl e) \<or> synthesis inp \<noteq> None \<or> load inp \<noteq> None \<or> play inp \<noteq> None
        \<or> (blocking \<and> (\<exists>n e. polling inp = BusyRaises n e))"
    by (auto simp: text_to_speech_def Let_def split: sum.splits option.splits busy.splits)
  show f: "fst (text_to_speech inp txt blocking flag) = Returned False \<longrightarrow>
        is_tts_speaking (fst (snd (text_to_speech inp txt blocking flag)))"
    by (auto simp: text_to_speech_def is_tts_speaking_def Let_def
        split: sum.splits option.splits busy.splits)
  show "fst (text_to_speech inp txt blocking flag) = Returned False
        \<and> (\<forall>i\<in>set inps. still_listening i
              \<and> tts_speaking i
                  = Some (is_tts_speaking (fst (snd (text_to_speech inp txt blocking flag))))) \<longrightarrow>
        listen_worker inps q
          = (Continue q, concat (map (\<lambda>i. [APrint Pausing, ASleep 0.5]) inps))
        \<and> AListen \<notin> set (snd (listen_worker inps q))"
  proof
    assume a: "fst (text_to_speech inp txt blocking flag) = Returned False
        \<and> (\<forall>i\<in>set inps. still_listening i
              \<and> tts_speaking i
                  = Some (is_tts_speaking (fst (snd (text_to_speech inp txt blocking flag)))))"
    then have "\<forall>i\<in>set inps. still_listening i \<and> tts_speaking i = Some True"
      using f by simp
    then have "listen_worker inps q
          = (Continue q, concat (map (\<lambda>i. [APrint Pausing, ASleep 0.5]) inps))"
      by (rule paused_worker)
    with paused_no_listen[of inps] show "listen_worker inps q
          = (Continue q, concat (map (\<lambda>i. [APrint Pausing, ASleep 0.5]) inps))
        \<and> AListen \<notin> set (snd (listen_worker inps q))"
      by auto
  qed
qed

theorem failed_speech_keeps_flag_witness:
  "text_to_speech no_network ''Leave now'' True False
     = (Returned False, True,
        [Synthesizing ''Leave now'', SetSpeaking True, MakeTempfile, Synthesize ''Leave now'',
         TTSError (OtherError ''gTTSError'')])
   \<and> listen_worker [paused, paused, paused] (Queue 0)
     = (Continue (Queue 0),
        [APrint Pausing, ASleep 0.5, APrint Pausing, ASleep 0.5, APrint Pausing, ASleep 0.5])"
proof -
  have t: "text_to_speech no_network ''Leave now'' True False
     = (Returned False, True,
        [Synthesizing ''Leave now'', SetSpeaking True, MakeTempfile, Synthesize ''Leave now'',
         TTSError (OtherError ''gTTSError'')])"
    by (simp add: text_to_speech_def no_network_def)
  have "listen_worker [paused, paused, paused] (Queue 0)
     = (Continue (Queue 0),
        [APrint Pausing, ASleep 0.5, APrint Pausing, ASleep 0.5, APrint Pausing, ASleep 0.5])"
    using failed_speech_keeps_flag[of no_network "''Leave now''" True False
        "[paused, paused, paused]" "Queue 0", THEN conjunct2, THEN conjunct2, THEN conjunct2]
    by (simp add: t paused_def is_tts_speaking_def)
  then show ?thesis using t by simp
qed

text \<open>
  C2, as the code has it. In every state the loop can reach, the frame queue and the
  result queue have capacity 1 and the text queue of the listener is unbounded, so it is
  never full. The main loop drops a frame when the frame queue is full. The recognition
  worker puts its result with the blocking \<open>put\<close>: it waits when the result queue is
  full and drops nothing. The listener's \<open>put\<close> on the unbounded queue always appends.
\<close>

theorem queue_capacities:
  "(reachable s \<longrightarrow>
      maxsize (frame_queue s) = 1 \<and> maxsize (result_queue s) = 1
      \<and> maxsize (text_queue s) = 0 \<and> \<not> q_full (text_queue s))
   \<and> (q_full (frame_queue s) \<longrightarrow> submit_frame fr s = Some (s, []))
   \<and> (q_get fq = Some (Some fr, fq') \<longrightarrow>
        worker_iteration m kf detect (fq, rq) =
          (if q_full rq then Blocks
           else Continue (fq', rq\<lparr>items := items rq @ [map (name_face m kf) (detect fr)]\<rparr>)))
   \<and> (maxsize q \<le> 0 \<and> tts_speaking inp \<noteq> Some True \<and> microphone inp = None
        \<and> heard inp = Inr a \<and> recognized inp = Inr utt \<longrightarrow>
        fst (listen_iteration inp q) = Continue (q\<lparr>items := items q @ [utt]\<rparr>))"
proof -
  have a: "reachable s \<longrightarrow>
      maxsize (frame_queue s) = 1 \<and> maxsize (result_queue s) = 1
      \<and> maxsize (text_queue s) = 0 \<and> \<not> q_full (text_queue s)"
  proof
    assume "reachable s"
    then have "capacities s" by (rule reachable_capacities)
    then show "maxsize (frame_queue s) = 1 \<and> maxsize (result_queue s) = 1
        \<and> maxsize (text_queue s) = 0 \<and> \<not> q_full (text_queue s)"
      by (simp add: capacities_def q_full_def)
  qed
  have b: "q_full (frame_queue s) \<longrightarrow> submit_frame fr s = Some (s, [])"
    by (simp add: submit_frame_eq)
  have c: "q_get fq = Some (Some fr, fq') \<longrightarrow>
        worker_iteration m kf detect (fq, rq) =
          (if q_full rq then Blocks
           else Continue (fq', rq\<lparr>items := items rq @ [map (name_face m kf) (detect fr)]\<rparr>))"
    by (simp add: worker_iteration_def q_put_def)
  have d: "maxsize q \<le> 0 \<and> tts_speaking inp \<noteq> Some True \<and> microphone inp = None
        \<and> heard inp = Inr a \<and> recognized inp = Inr utt \<longrightarrow>
        fst (listen_iteration inp q) = Continue (q\<lparr>items := items q @ [utt]\<rparr>)"
    by (simp add: listen_iteration_def q_put_def q_full_def)
  from a b c d show ?thesis by (intro conjI)
qed

theorem queue_capacities_witness:
  "maxsize (frame_queue guarding) = 1 \<and> maxsize (text_queue guarding) = 0
   \<and> submit_frame 7 (guarding\<lparr>frame_queue := \<lparr>maxsize = 1, items = [Some 3]\<rparr>, frame_count := 3\<rparr>)
       = Some (guarding\<lparr>frame_queue := \<lparr>maxsize = 1, items = [Some 3]\<rparr>, frame_count := 3\<rparr>, [])
   \<and> worker_iteration near [] (\<lambda>f. [])
         (\<lparr>maxsize = 1, items = [Some 7]\<rparr>, \<lparr>maxsize = 1, items = [[]]\<rparr>)
       = Blocks
   \<and> fst (listen_iteration (hears (Inr ''two'')) \<lparr>maxsize = 0, items = [''one'']\<rparr>)
       = Continue \<lparr>maxsize = 0, items = [''one'', ''two'']\<rparr>"
proof -
  note th = queue_capacities[where s = guarding]
  have "maxsize (frame_queue guarding) = 1 \<and> maxsize (text_queue guarding) = 0"
    using th[THEN conjunct1] reachable_guarding by simp
  moreover have "submit_frame 7 (guarding\<lparr>frame_queue := \<lparr>maxsize = 1, items = [Some 3]\<rparr>, frame_count := 3\<rparr>)
       = Some (guarding\<lparr>frame_queue := \<lparr>maxsize = 1, items = [Some 3]\<rparr>, frame_count := 3\<rparr>, [])"
    using queue_capacities[where s = "guarding\<lparr>frame_queue := \<lparr>maxsize = 1, items = [Some 3]\<rparr>, frame_count := 3\<rparr>"
        and fr = 7, THEN conjunct2, THEN conjunct1]
    by (simp add: q_full_def qsize_def)
  moreover have "worker_iteration near [] (\<lambda>f. [])
         (\<lparr>maxsize = 1, items = [Some 7]\<rparr>, \<lparr>maxsize = 1, items = [[]]\<rparr>) = Blocks"
    using queue_capacities[where fq = "\<lparr>maxsize = 1, items = [Some 7]\<rparr>" and fr = 7
        and fq' = "\<lparr>maxsize = 1, items = []\<rparr>" and rq = "\<lparr>maxsize = 1, items = [[]]\<rparr>"
        and m = near and kf = "[]" and detect = "\<lambda>f. []",
        THEN conjunct2, THEN conjunct2, THEN conjunct1]
    by (simp add: q_get_def q_full_def qsize_def)
  moreover have "fst (listen_iteration (hears (Inr ''two'')) \<lparr>maxsize = 0, items = [''one'']\<rparr>)
       = Continue \<lparr>maxsize = 0, items = [''one'', ''two'']\<rparr>"
    using queue_capacities[where q = "\<lparr>maxsize = 0, items = [''one'']\<rparr>"
        and inp = "hears (Inr ''two'')" and a = 1 and utt = "''two''",
        THEN conjunct2, THEN conjunct2, THEN conjunct2]
    by (simp add: hears_def)
  ultimately show ?thesis by (intro conjI) simp_all
qed

text \<open>
  C2 as stated fails: the text queue has no bound and holds two utterances after two
  iterations of the listener, and the worker facing a full result queue waits.
\<close>

theorem queue_capacities_counterexample:
  "maxsize (text_queue (initial_state False)) = 0
   \<and> fst (listen_worker [hears (Inr ''one''), hears (Inr ''two'')] (text_queue (initial_state False)))
       = Continue \<lparr>maxsize = 0, items = [''one'', ''two'']\<rparr>
   \<and> worker_iteration near [] (\<lambda>f. [])
         (\<lparr>maxsize = 1, items = [Some 7]\<rparr>, \<lparr>maxsize = 1, items = [[]]\<rparr>)
       = Blocks"
  by (simp add: initial_state_def Queue_def hears_def listen_iteration_def q_put_def q_full_def
      qsize_def worker_iteration_def q_get_def)

end
